theory Spec2Isabelle
  imports Main
begin

section \<open>Text helpers of the server (Python \<open>str\<close> methods)\<close>

text \<open>
  Decoded text is a \<^typ>\<open>string\<close>; a \<^typ>\<open>char\<close> stands for a code point below 256.
  \<open>str.strip()\<close> removes leading and trailing characters for which \<open>str.isspace()\<close>
  holds; below 256 these are the code points 9 to 13, 28 to 32, 133 and 160.
\<close>

abbreviation (input) NL :: char where
  "NL \<equiv> CHR 0x0A"

abbreviation (input) SP :: char where
  "SP \<equiv> CHR 0x20"

definition py_isspace :: "char \<Rightarrow> bool" where
  "py_isspace c =
     ((of_char c :: nat) \<in> {9, 10, 11, 12, 13, 28, 29, 30, 31, 32, 133, 160})"

definition strip :: "string \<Rightarrow> string" where
  "strip s = rev (dropWhile py_isspace (rev (dropWhile py_isspace s)))"

definition startswith :: "string \<Rightarrow> string \<Rightarrow> bool" where
  "startswith s p = (take (length p) s = p)"

text \<open>\<open>s.split(" ", k)\<close>: at most \<open>k\<close> cuts, each at the next single space.\<close>

fun split_sp :: "nat \<Rightarrow> string \<Rightarrow> string list" where
  "split_sp 0 s = [s]"
| "split_sp (Suc k) s =
     (if SP \<in> set s
      then takeWhile (\<lambda>c. c \<noteq> SP) s # split_sp k (tl (dropWhile (\<lambda>c. c \<noteq> SP) s))
      else [s])"

section \<open>Shared state: \<open>clients\<close>, \<open>channels\<close>, and the sockets\<close>

text \<open>
  A socket is identified by a number. \<open>clients\<close> is the dict from nickname to socket,
  \<open>channels\<close> the dict from channel name to its set of nicknames. A Python set is
  modelled as a list without repetitions (\<open>add\<close> appends only a new element,
  \<open>remove\<close> deletes the element); the order stands for the unspecified iteration order
  of the set. \<open>sent\<close> records every \<open>sendall\<close> call made so far, as (socket, text), in
  order. \<open>broken\<close> is the set of sockets on which \<open>sendall\<close> raises.
\<close>

type_synonym sock = nat

record world =
  clients :: "string \<rightharpoonup> sock"
  channels :: "string \<rightharpoonup> string list"
  sent :: "(sock \<times> string) list"
  broken :: "sock set"

definition sendall :: "sock \<Rightarrow> string \<Rightarrow> world \<Rightarrow> world" where
  "sendall s line w = w\<lparr>sent := sent w @ [(s, line)]\<rparr>"

definition set_add :: "string \<Rightarrow> string list \<Rightarrow> string list" where
  "set_add n ms = (if n \<in> set ms then ms else ms @ [n])"

subsection \<open>The lines the server writes\<close>

definition channel_line :: "string \<Rightarrow> string \<Rightarrow> string \<Rightarrow> string" where
  "channel_line channel_name sender_nick message =
     ''[Channel '' @ channel_name @ ''] '' @ sender_nick @ '': '' @ message @ [NL]"

definition private_line :: "string \<Rightarrow> string \<Rightarrow> string" where
  "private_line sender_nick message = ''[Private] '' @ sender_nick @ '': '' @ message @ [NL]"

definition not_found_line :: "string \<Rightarrow> string" where
  "not_found_line target_nick = ''User '' @ [CHR 0x27] @ target_nick @ [CHR 0x27] @ '' not found.'' @ [NL]"

definition taken_line :: string where
  "taken_line = ''Nickname already taken. Try another one.'' @ [NL]"

definition empty_nick_line :: string where
  "empty_nick_line = ''Nickname cannot be empty.'' @ [NL]"

definition nick_set_line :: "string \<Rightarrow> string" where
  "nick_set_line nickname = ''Nickname set to '' @ [CHR 0x27] @ nickname @ [CHR 0x27] @ ''.'' @ [NL]"

definition empty_channel_line :: string where
  "empty_channel_line = ''Channel name cannot be empty.'' @ [NL]"

definition join_first_line :: string where
  "join_first_line = ''You must set a nickname before joining channels.'' @ [NL]"

definition joined_line :: "string \<Rightarrow> string" where
  "joined_line channel_name =
     ''You have joined channel '' @ [CHR 0x27] @ channel_name @ [CHR 0x27] @ ''.'' @ [NL]"

definition send_usage_line :: string where
  "send_usage_line = ''Usage: /send <channel> <message>'' @ [NL]"

definition send_first_line :: string where
  "send_first_line = ''You must set a nickname before sending messages.'' @ [NL]"

definition must_join_line :: "string \<Rightarrow> string" where
  "must_join_line channel_name =
     ''You must join channel '' @ [CHR 0x27] @ channel_name @ [CHR 0x27]
       @ '' before sending messages there.'' @ [NL]"

definition pm_usage_line :: string where
  "pm_usage_line = ''Usage: /pm <nick> <message>'' @ [NL]"

definition pm_first_line :: string where
  "pm_first_line = ''You must set a nickname before sending private messages.'' @ [NL]"

definition quit_line :: string where
  "quit_line = ''Disconnecting...'' @ [NL]"

definition unknown_line :: string where
  "unknown_line = ''Unknown command. Try /nick, /join, /send, /pm, or /quit.'' @ [NL]"

section \<open>The router: \<open>broadcast_channel_message\<close> and \<open>private_message\<close>\<close>

text \<open>
  The \<open>for\<close> loop of \<open>broadcast_channel_message\<close> over the members of the channel. A
  \<open>sendall\<close> that raises is swallowed by \<open>except: pass\<close>, so the loop goes on either way.
\<close>

fun deliver :: "string \<Rightarrow> string \<Rightarrow> string \<Rightarrow> string list \<Rightarrow> world \<Rightarrow> world" where
  "deliver sender_nick channel_name message [] w = w"
| "deliver sender_nick channel_name message (nickname # rest) w =
     deliver sender_nick channel_name message rest
       (case clients w nickname of
          None \<Rightarrow> w
        | Some s \<Rightarrow>
            if nickname \<noteq> sender_nick
            then sendall s (channel_line channel_name sender_nick message) w
            else w)"

definition broadcast_channel_message :: "string \<Rightarrow> string \<Rightarrow> string \<Rightarrow> world \<Rightarrow> world" where
  "broadcast_channel_message sender_nick channel_name message w =
     (case channels w channel_name of
        None \<Rightarrow> w
      | Some members \<Rightarrow> deliver sender_nick channel_name message members w)"

text \<open>
  \<open>private_message\<close> returns whether an exception left it: the write of the
  not-found line to the sender stands outside any \<open>try\<close>, the write to the target inside
  one.
\<close>

definition private_message :: "string \<Rightarrow> string \<Rightarrow> string \<Rightarrow> world \<Rightarrow> bool \<times> world" where
  "private_message sender_nick target_nick message w =
     (case clients w target_nick of
        None \<Rightarrow>
          (case clients w sender_nick of
             None \<Rightarrow> (False, w)
           | Some s \<Rightarrow> (s \<in> broken w, sendall s (not_found_line target_nick) w))
      | Some t \<Rightarrow> (False, sendall t (private_line sender_nick message) w))"

section \<open>The session loop of \<open>handle_client_connection\<close>\<close>

text \<open>
  What one \<open>recv(1024)\<close> gives the loop: text (bytes that decode), the empty read,
  \<open>ConnectionResetError\<close>, or bytes on which \<open>data.decode()\<close> raises
  \<open>UnicodeDecodeError\<close>. The loop catches \<open>ConnectionResetError\<close> only, so any
  other exception of \<open>recv\<close> ends the thread as \<open>Garbled\<close> does.
\<close>

datatype recv_result = Data string | Empty | Reset | Garbled

text \<open>
  How one pass through the loop body ends: \<open>continue\<close> (or the end of the body),
  \<open>break\<close>, an exception that nothing catches, or, for \<open>/send\<close>, the point after the
  membership check where \<open>lock\<close> has been released and
  \<open>broadcast_channel_message(nickname, channel_name, msg)\<close> is the next statement
  (the three strings are its arguments).
\<close>

datatype control = Continue | Break | Raise | Call_broadcast string string string

text \<open>A write to the session's own socket, outside any \<open>try\<close>.\<close>

definition reply :: "sock \<Rightarrow> string \<Rightarrow> string option \<Rightarrow> world \<Rightarrow> control \<times> string option \<times> world" where
  "reply client_socket line nickname w =
     (if client_socket \<in> broken w then Raise else Continue, nickname, sendall client_socket line w)"

text \<open>
  \<open>del clients[nickname]\<close> followed by the loop that removes the nickname from every
  channel (lines 86 to 90 and 161 to 165).
\<close>

definition remove_nickname :: "string \<Rightarrow> world \<Rightarrow> world" where
  "remove_nickname nickname w =
     w\<lparr>clients := (clients w)(nickname := None),
       channels := (\<lambda>c. map_option (removeAll nickname) (channels w c))\<rparr>"

text \<open>The guard \<open>if nickname and nickname in clients\<close> with its body.\<close>

definition drop_old :: "string option \<Rightarrow> world \<Rightarrow> world" where
  "drop_old nickname w =
     (case nickname of
        None \<Rightarrow> w
      | Some old \<Rightarrow> if old \<noteq> [] \<and> old \<in> dom (clients w) then remove_nickname old w else w)"

definition nick_command :: "sock \<Rightarrow> string \<Rightarrow> string option \<Rightarrow> world \<Rightarrow> control \<times> string option \<times> world" where
  "nick_command client_socket message nickname w =
     (case split_sp 1 message of
        [_, arg] \<Rightarrow>
          (let desired_nick = strip arg in
           if desired_nick = [] then reply client_socket empty_nick_line nickname w
           else if desired_nick \<in> dom (clients w) then reply client_socket taken_line nickname w
           else
             (let w1 = drop_old nickname w;
                  w2 = w1\<lparr>clients := (clients w1)(desired_nick \<mapsto> client_socket)\<rparr>
              in reply client_socket (nick_set_line desired_nick) (Some desired_nick) w2))
      | _ \<Rightarrow> (Raise, nickname, w))"

definition join_command :: "sock \<Rightarrow> string \<Rightarrow> string option \<Rightarrow> world \<Rightarrow> control \<times> string option \<times> world" where
  "join_command client_socket message nickname w =
     (case split_sp 1 message of
        [_, arg] \<Rightarrow>
          (let channel_name = strip arg in
           if channel_name = [] then reply client_socket empty_channel_line nickname w
           else
             (case nickname of
                None \<Rightarrow> reply client_socket join_first_line nickname w
              | Some n \<Rightarrow>
                  if n = [] then reply client_socket join_first_line nickname w
                  else
                    (let members = (case channels w channel_name of None \<Rightarrow> [] | Some ms \<Rightarrow> ms);
                         w1 = w\<lparr>channels := (channels w)(channel_name \<mapsto> set_add n members)\<rparr>
                     in reply client_socket (joined_line channel_name) nickname w1)))
      | _ \<Rightarrow> (Raise, nickname, w))"

text \<open>\<open>channel_name in channels and nickname in channels[channel_name]\<close>.\<close>

definition is_member :: "string \<Rightarrow> string \<Rightarrow> world \<Rightarrow> bool" where
  "is_member nickname channel_name w =
     (case channels w channel_name of None \<Rightarrow> False | Some members \<Rightarrow> nickname \<in> set members)"

text \<open>
  \<open>/send\<close> up to the end of its \<open>with lock\<close> block (lines 117 to 130): the call of
  \<open>broadcast_channel_message\<close> on line 133 comes after the lock is released.
\<close>

definition send_command :: "sock \<Rightarrow> string \<Rightarrow> string option \<Rightarrow> world \<Rightarrow> control \<times> string option \<times> world" where
  "send_command client_socket message nickname w =
     (case split_sp 2 message of
        [_, channel_name, msg] \<Rightarrow>
          (case nickname of
             None \<Rightarrow> reply client_socket send_first_line nickname w
           | Some n \<Rightarrow>
               if n = [] then reply client_socket send_first_line nickname w
               else
                 if \<not> is_member n channel_name w
                 then reply client_socket (must_join_line channel_name) nickname w
                 else (Call_broadcast n channel_name msg, nickname, w))
      | _ \<Rightarrow> reply client_socket send_usage_line nickname w)"

definition pm_command :: "sock \<Rightarrow> string \<Rightarrow> string option \<Rightarrow> world \<Rightarrow> control \<times> string option \<times> world" where
  "pm_command client_socket message nickname w =
     (case split_sp 2 message of
        [_, target_nick, msg] \<Rightarrow>
          (case nickname of
             None \<Rightarrow> reply client_socket pm_first_line nickname w
           | Some n \<Rightarrow>
               if n = [] then reply client_socket pm_first_line nickname w
               else
                 (let (raised, w1) = private_message n target_nick msg w
                  in (if raised then Raise else Continue, nickname, w1)))
      | _ \<Rightarrow> reply client_socket pm_usage_line nickname w)"

text \<open>The \<open>if\<close>/\<open>elif\<close> chain of lines 73 to 156 on the stripped, non-empty message.\<close>

definition dispatch :: "sock \<Rightarrow> string \<Rightarrow> string option \<Rightarrow> world \<Rightarrow> control \<times> string option \<times> world" where
  "dispatch client_socket message nickname w =
     (if startswith message ''/nick '' then nick_command client_socket message nickname w
      else if startswith message ''/join '' then join_command client_socket message nickname w
      else if startswith message ''/send '' then send_command client_socket message nickname w
      else if startswith message ''/pm '' then pm_command client_socket message nickname w
      else if message = ''/quit'' then
        (if client_socket \<in> broken w then Raise else Break, nickname,
         sendall client_socket quit_line w)
      else reply client_socket unknown_line nickname w)"

text \<open>
  One pass through the \<open>while True\<close> body (lines 58 to 156), up to the first point where
  the thread gives up the lock for another statement that takes it.
\<close>

definition loop_body :: "sock \<Rightarrow> recv_result \<Rightarrow> string option \<Rightarrow> world \<Rightarrow> control \<times> string option \<times> world" where
  "loop_body client_socket r nickname w =
     (case r of
        Reset \<Rightarrow> (Break, nickname, w)
      | Empty \<Rightarrow> (Break, nickname, w)
      | Garbled \<Rightarrow> (Raise, nickname, w)
      | Data d \<Rightarrow>
          if d = [] then (Break, nickname, w)
          else
            (let message = strip d in
             if message = [] then (Continue, nickname, w)
             else dispatch client_socket message nickname w))"

text \<open>
  One whole command with nothing of another thread in between: the loop body, and for a
  \<open>/send\<close> that passed its check the broadcast right after it.
\<close>

definition command :: "sock \<Rightarrow> recv_result \<Rightarrow> string option \<Rightarrow> world \<Rightarrow> control \<times> string option \<times> world" where
  "command client_socket r nickname w =
     (case loop_body client_socket r nickname w of
        (Call_broadcast n channel_name msg, nickname1, w1) \<Rightarrow>
          (Continue, nickname1, broadcast_channel_message n channel_name msg w1)
      | other \<Rightarrow> other)"

text \<open>
  The code after the loop (lines 159 to 167): the cleanup under the lock, then
  \<open>client_socket.close()\<close>, after which writes to the socket raise.
\<close>

definition cleanup :: "sock \<Rightarrow> string option \<Rightarrow> world \<Rightarrow> world" where
  "cleanup client_socket nickname w =
     (let w1 = drop_old nickname w in w1\<lparr>broken := insert client_socket (broken w1)\<rparr>)"

section \<open>Threads under the lock\<close>

text \<open>
  One thread per accepted connection, named by its socket. A thread is not yet started,
  in its loop with the local variable \<open>nickname\<close>, between the membership check of
  \<open>/send\<close> and the call of \<open>broadcast_channel_message\<close> (with the call's arguments;
  \<open>nickname\<close> is the first), finished after its cleanup, or ended by an exception
  (with the value \<open>nickname\<close> had).
\<close>

datatype thread =
    Absent
  | Running "string option"
  | Pending string string string
  | Closed
  | Crashed "string option"

record config =
  shared :: world
  threads :: "sock \<Rightarrow> thread"

text \<open>The six \<open>sendall\<close> calls of lines 50 to 55; the first that raises ends the thread.\<close>

definition banner :: "string list" where
  "banner =
     [''Welcome to the chat server!'' @ [NL],
      ''Use '' @ [CHR 0x27] @ ''/nick <yourNickname>'' @ [CHR 0x27] @ '' to set your nickname.'' @ [NL],
      ''Use '' @ [CHR 0x27] @ ''/join <channel>'' @ [CHR 0x27] @ '' to join a channel.'' @ [NL],
      ''Use '' @ [CHR 0x27] @ ''/send <channel> <message>'' @ [CHR 0x27]
        @ '' to send a message to a channel.'' @ [NL],
      ''Use '' @ [CHR 0x27] @ ''/pm <nick> <message>'' @ [CHR 0x27] @ '' to send a private message.'' @ [NL],
      ''Use '' @ [CHR 0x27] @ ''/quit'' @ [CHR 0x27] @ '' to disconnect.'' @ [NL, NL]]"

definition send_banner :: "sock \<Rightarrow> world \<Rightarrow> bool \<times> world" where
  "send_banner client_socket w =
     (if client_socket \<in> broken w then (True, sendall client_socket (hd banner) w)
      else (False, foldl (\<lambda>w1 line. sendall client_socket line w1) w banner))"

text \<open>
  A step is what one thread does while no other thread can touch \<open>clients\<close> and
  \<open>channels\<close>: it runs up to the next release of \<open>lock\<close> that is followed by another
  acquisition. \<open>Connect\<close> starts the thread of a new connection, \<open>Input\<close> is one pass
  through the loop body on what \<open>recv\<close> returned (with the cleanup when the loop ends),
  \<open>Resume\<close> is the call of \<open>broadcast_channel_message\<close> on line 133. An event that
  does not fit the thread's state changes nothing. \<open>Sever\<close> is the network's move, not
  a thread's: the connection behind the socket breaks, and from then on \<open>sendall\<close> on
  it raises.
\<close>

datatype event = Connect sock | Input sock recv_result | Resume sock | Sever sock

definition step :: "event \<Rightarrow> config \<Rightarrow> config" where
  "step e cfg =
     (case e of
        Connect s \<Rightarrow>
          (case threads cfg s of
             Absent \<Rightarrow>
               (let (raised, w1) = send_banner s (shared cfg)
                in cfg\<lparr>shared := w1,
                       threads := (threads cfg)(s := if raised then Crashed None else Running None)\<rparr>)
           | _ \<Rightarrow> cfg)
      | Input s r \<Rightarrow>
          (case threads cfg s of
             Running nickname \<Rightarrow>
               (case loop_body s r nickname (shared cfg) of
                  (Continue, nickname1, w1) \<Rightarrow>
                    cfg\<lparr>shared := w1, threads := (threads cfg)(s := Running nickname1)\<rparr>
                | (Break, nickname1, w1) \<Rightarrow>
                    cfg\<lparr>shared := cleanup s nickname1 w1, threads := (threads cfg)(s := Closed)\<rparr>
                | (Raise, nickname1, w1) \<Rightarrow>
                    cfg\<lparr>shared := w1, threads := (threads cfg)(s := Crashed nickname1)\<rparr>
                | (Call_broadcast n channel_name msg, nickname1, w1) \<Rightarrow>
                    cfg\<lparr>shared := w1, threads := (threads cfg)(s := Pending n channel_name msg)\<rparr>)
           | _ \<Rightarrow> cfg)
      | Resume s \<Rightarrow>
          (case threads cfg s of
             Pending n channel_name msg \<Rightarrow>
               cfg\<lparr>shared := broadcast_channel_message n channel_name msg (shared cfg),
                   threads := (threads cfg)(s := Running (Some n))\<rparr>
           | _ \<Rightarrow> cfg)
      | Sever s \<Rightarrow> cfg\<lparr>shared := (shared cfg)\<lparr>broken := insert s (broken (shared cfg))\<rparr>\<rparr>)"

fun run :: "event list \<Rightarrow> config \<Rightarrow> config" where
  "run [] cfg = cfg"
| "run (e # es) cfg = run es (step e cfg)"

text \<open>The server right after \<open>start_server\<close>: empty dicts, no thread.\<close>

definition initial :: config where
  "initial =
     \<lparr>shared = \<lparr>clients = Map.empty, channels = Map.empty, sent = [], broken = {}\<rparr>,
      threads = (\<lambda>s. Absent)\<rparr>"

text \<open>
  Commands run one after the other, each as a whole: a new connection, or one thread
  taking what \<open>recv\<close> returned through the loop body and, for a \<open>/send\<close>, through the
  broadcast, before any other thread moves.
\<close>

datatype action = Accept sock | Command sock recv_result

fun events_of :: "action \<Rightarrow> event list" where
  "events_of (Accept s) = [Connect s]"
| "events_of (Command s r) = [Input s r, Resume s]"

definition run_commands :: "action list \<Rightarrow> config \<Rightarrow> config" where
  "run_commands acts cfg = run (concat (map events_of acts)) cfg"

text \<open>The value of the local variable \<open>nickname\<close> of a thread, if it has one.\<close>

fun nick_of :: "thread \<Rightarrow> string option" where
  "nick_of Absent = None"
| "nick_of (Running nickname) = nickname"
| "nick_of (Pending n channel_name msg) = Some n"
| "nick_of Closed = None"
| "nick_of (Crashed nickname) = nickname"

fun sock_of :: "event \<Rightarrow> sock" where
  "sock_of (Connect s) = s"
| "sock_of (Input s r) = s"
| "sock_of (Resume s) = s"
| "sock_of (Sever s) = s"

text \<open>
  The link between the threads and the shared dicts: a thread's nickname is registered
  to the thread's own socket, every registered nickname is the nickname of the thread
  whose socket it is registered to, no thread's nickname is the empty string, and every
  member of a channel is registered.
\<close>

definition linked :: "(string \<rightharpoonup> sock) \<Rightarrow> (string \<rightharpoonup> string list) \<Rightarrow> (sock \<Rightarrow> string option) \<Rightarrow> bool" where
  "linked cl ch nk =
     ((\<forall>s n. nk s = Some n \<longrightarrow> cl n = Some s) \<and>
      (\<forall>s n. cl n = Some s \<longrightarrow> nk s = Some n) \<and>
      (\<forall>s. nk s \<noteq> Some []) \<and>
      (\<forall>c members n. ch c = Some members \<longrightarrow> n \<in> set members \<longrightarrow> n \<in> dom cl))"

definition consistent :: "config \<Rightarrow> bool" where
  "consistent cfg =
     linked (clients (shared cfg)) (channels (shared cfg)) (\<lambda>s. nick_of (threads cfg s))"

text \<open>What a pass through the loop body can do to the dicts and the local nickname.\<close>

definition unchanged :: "string option \<Rightarrow> world \<Rightarrow> string option \<Rightarrow> world \<Rightarrow> bool" where
  "unchanged nickname w nn w' = (nn = nickname \<and> clients w' = clients w \<and> channels w' = channels w)"

definition renamed :: "sock \<Rightarrow> string option \<Rightarrow> world \<Rightarrow> string option \<Rightarrow> world \<Rightarrow> bool" where
  "renamed s nickname w nn w' =
     (\<exists>d. d \<notin> dom (clients w) \<and> d \<noteq> [] \<and> nn = Some d \<and>
          clients w' = (clients (drop_old nickname w))(d \<mapsto> s) \<and>
          channels w' = channels (drop_old nickname w))"

definition joined :: "string option \<Rightarrow> world \<Rightarrow> string option \<Rightarrow> world \<Rightarrow> bool" where
  "joined nickname w nn w' =
     (\<exists>n c. nickname = Some n \<and> n \<noteq> [] \<and> nn = nickname \<and> clients w' = clients w \<and>
        channels w' = (channels w)(c \<mapsto> set_add n (case channels w c of None \<Rightarrow> [] | Some ms \<Rightarrow> ms)))"

text \<open>
  An example: two connections, \<open>alice\<close> on socket 1 and \<open>bob\<close> on socket 2, and
  \<open>alice\<close> in the channel \<open>lobby\<close>.
\<close>

definition lobby_cfg :: config where
  "lobby_cfg =
     run_commands
       [Accept 1, Accept 2,
        Command 1 (Data (''/nick alice'' @ [NL])),
        Command 2 (Data (''/nick bob'' @ [NL])),
        Command 1 (Data (''/join lobby'' @ [NL]))]
       initial"

section \<open>Parsing lemmas\<close>

lemma split1_prefix:
  "SP \<notin> set p \<Longrightarrow> split_sp (Suc k) (p @ SP # rest) = p # split_sp k rest"
  by (induction p) auto

lemma split_nick: "split_sp 1 (''/nick '' @ arg) = [''/nick'', arg]"
  using split1_prefix [of "''/nick''" 0 arg] by simp

lemma split_join: "split_sp 1 (''/join '' @ arg) = [''/join'', arg]"
  using split1_prefix [of "''/join''" 0 arg] by simp

lemma split_send3:
  "SP \<notin> set c \<Longrightarrow> split_sp 2 (''/send '' @ c @ SP # m) = [''/send'', c, m]"
  using split1_prefix [of "''/send''" 1 "c @ SP # m"] split1_prefix [of c 0 m]
  by (simp add: numeral_2_eq_2)

lemma split_pm3:
  "SP \<notin> set t \<Longrightarrow> split_sp 2 (''/pm '' @ t @ SP # m) = [''/pm'', t, m]"
  using split1_prefix [of "''/pm''" 1 "t @ SP # m"] split1_prefix [of t 0 m]
  by (simp add: numeral_2_eq_2)

lemma sw_nick: "startswith (''/nick '' @ arg) ''/nick ''"
  by (simp add: startswith_def)

lemma sw_join: "startswith (''/join '' @ arg) ''/join '' \<and> \<not> startswith (''/join '' @ arg) ''/nick ''"
  by (simp add: startswith_def)

lemma sw_send: "startswith (''/send '' @ arg) ''/send '' \<and> \<not> startswith (''/send '' @ arg) ''/nick ''
   \<and> \<not> startswith (''/send '' @ arg) ''/join ''"
  by (simp add: startswith_def)

lemma sw_pm: "startswith (''/pm '' @ arg) ''/pm '' \<and> \<not> startswith (''/pm '' @ arg) ''/nick ''
   \<and> \<not> startswith (''/pm '' @ arg) ''/join '' \<and> \<not> startswith (''/pm '' @ arg) ''/send ''"
  by (simp add: startswith_def)

lemma sw_quit: "\<not> startswith (''/quit'' @ t) ''/nick '' \<and> \<not> startswith (''/quit'' @ t) ''/join ''
   \<and> \<not> startswith (''/quit'' @ t) ''/send '' \<and> \<not> startswith (''/quit'' @ t) ''/pm ''"
  by (simp add: startswith_def)

lemma dropWhile_keeps_last:
  "xs \<noteq> [] \<Longrightarrow> \<not> P (last xs) \<Longrightarrow> dropWhile P xs \<noteq> [] \<and> last (dropWhile P xs) = last xs"
  by (induction xs) auto

lemma strip_nonempty_last: "strip s \<noteq> [] \<Longrightarrow> \<not> py_isspace (last (strip s))"
  unfolding strip_def
  by (metis hd_dropWhile last_rev rev_is_Nil_conv)

lemma strip_keeps_clean_end:
  assumes "xs \<noteq> []" and "\<not> py_isspace (last xs)"
  shows "strip xs \<noteq> []"
proof -
  let ?ys = "dropWhile py_isspace xs"
  from assms have ys: "?ys \<noteq> []" "last ?ys = last xs"
    using dropWhile_keeps_last [of xs py_isspace] by simp_all
  then have "\<not> py_isspace (hd (rev ?ys))"
    using assms(2) by (simp add: hd_rev)
  with ys(1) have "dropWhile py_isspace (rev ?ys) = rev ?ys"
    by (cases "rev ?ys") auto
  with ys(1) show ?thesis by (simp add: strip_def)
qed

lemma strip_arg_nonempty:
  assumes "strip d = p @ SP # arg"
  shows "strip arg \<noteq> []"
proof -
  from assms have ne: "strip d \<noteq> []" by simp
  have nl: "\<not> py_isspace (last (strip d))" by (rule strip_nonempty_last [OF ne])
  have sp: "py_isspace SP" by (simp add: py_isspace_def)
  have "arg \<noteq> []"
  proof
    assume "arg = []"
    with assms have "last (strip d) = SP" by simp
    with nl sp show False by simp
  qed
  moreover from this assms have "last (strip d) = last arg" by simp
  ultimately show ?thesis using nl strip_keeps_clean_end by simp
qed

section \<open>What each command does to the shared dicts\<close>

lemma deliver_shared:
  "clients (deliver a c m ms w) = clients w \<and> channels (deliver a c m ms w) = channels w
   \<and> broken (deliver a c m ms w) = broken w"
  by (induction ms arbitrary: w) (auto simp: sendall_def split: option.splits)

lemma broadcast_shared:
  "clients (broadcast_channel_message a c m w) = clients w \<and>
   channels (broadcast_channel_message a c m w) = channels w"
  by (simp add: broadcast_channel_message_def deliver_shared split: option.splits)

lemma private_shared:
  "private_message a t m w = (r, w') \<Longrightarrow> clients w' = clients w \<and> channels w' = channels w"
  by (auto simp: private_message_def sendall_def split: option.splits)

lemma two_parts_cases:
  obtains (two) a b where "xs = [a, b]" | (other) "\<And>a b. xs \<noteq> [a, b]"
  by (cases xs rule: list.exhaust; force)

lemma three_parts_cases:
  obtains (three) a b c where "xs = [a, b, c]" | (other) "\<And>a b c. xs \<noteq> [a, b, c]"
  by (cases xs rule: list.exhaust; force)

lemma case_two_other:
  "(\<And>a b. xs \<noteq> [a, b]) \<Longrightarrow> (case xs of [x, arg] \<Rightarrow> f arg | _ \<Rightarrow> g) = g"
  by (auto split: list.splits)

lemma case_three_other:
  "(\<And>a b c. xs \<noteq> [a, b, c]) \<Longrightarrow> (case xs of [x, y, z] \<Rightarrow> f y z | _ \<Rightarrow> g) = g"
  by (auto split: list.splits)

lemma nick_command_effect:
  assumes "nick_command s msg nickname w = (ctl, nn, w')"
  shows "unchanged nickname w nn w' \<or> renamed s nickname w nn w'"
proof (cases "split_sp 1 msg" rule: two_parts_cases)
  case (two a b)
  show ?thesis
  proof (cases "strip b = [] \<or> strip b \<in> dom (clients w)")
    case True
    with assms two have "unchanged nickname w nn w'"
      by (auto simp: nick_command_def Let_def unchanged_def reply_def sendall_def
               simp del: split_sp.simps split: if_splits)
    then show ?thesis ..
  next
    case False
    with assms two have "renamed s nickname w nn w'"
      unfolding renamed_def
      by (intro exI [of _ "strip b"])
         (auto simp: nick_command_def Let_def reply_def sendall_def simp del: split_sp.simps split: if_splits)
    then show ?thesis ..
  qed
next
  case other
  with assms show ?thesis
    by (simp add: nick_command_def unchanged_def case_two_other del: split_sp.simps)
qed

lemma join_command_effect:
  assumes "join_command s msg nickname w = (ctl, nn, w')"
  shows "unchanged nickname w nn w' \<or> joined nickname w nn w'"
proof (cases "split_sp 1 msg" rule: two_parts_cases)
  case (two a b)
  show ?thesis
  proof (cases "strip b = [] \<or> nickname = None \<or> nickname = Some []")
    case True
    with assms two have "unchanged nickname w nn w'"
      by (auto simp: join_command_def Let_def unchanged_def reply_def sendall_def
               simp del: split_sp.simps split: option.splits if_splits)
    then show ?thesis ..
  next
    case False
    then obtain n where n: "nickname = Some n" "n \<noteq> []"
      by auto
    with False assms two have "joined nickname w nn w'"
      unfolding joined_def
      by (intro exI [of _ n] exI [of _ "strip b"])
         (auto simp: join_command_def Let_def reply_def sendall_def simp del: split_sp.simps split: if_splits)
    then show ?thesis ..
  qed
next
  case other
  with assms show ?thesis
    by (simp add: join_command_def unchanged_def case_two_other del: split_sp.simps)
qed

lemma send_command_effect:
  assumes "send_command s msg nickname w = (ctl, nn, w')"
  shows "unchanged nickname w nn w'"
proof (cases "split_sp 2 msg" rule: three_parts_cases)
  case (three a b c)
  with assms show ?thesis
    by (auto simp: send_command_def unchanged_def reply_def sendall_def
             simp del: split_sp.simps split: option.splits if_splits)
next
  case other
  with assms show ?thesis
    by (auto simp: send_command_def unchanged_def case_three_other reply_def sendall_def
             simp del: split_sp.simps)
qed

lemma pm_command_effect:
  assumes "pm_command s msg nickname w = (ctl, nn, w')"
  shows "unchanged nickname w nn w'"
proof (cases "split_sp 2 msg" rule: three_parts_cases)
  case (three a b c)
  with assms show ?thesis
    by (auto simp: pm_command_def unchanged_def reply_def sendall_def
             simp del: split_sp.simps dest: private_shared
             split: option.splits if_splits prod.splits)
next
  case other
  with assms show ?thesis
    by (auto simp: pm_command_def unchanged_def case_three_other reply_def sendall_def
             simp del: split_sp.simps)
qed

lemma dispatch_effect:
  assumes "dispatch s msg nickname w = (ctl, nn, w')"
  shows "unchanged nickname w nn w' \<or> renamed s nickname w nn w' \<or> joined nickname w nn w'"
  using assms nick_command_effect [of s msg nickname w ctl nn w']
        join_command_effect [of s msg nickname w ctl nn w']
        send_command_effect [of s msg nickname w ctl nn w']
        pm_command_effect [of s msg nickname w ctl nn w']
  unfolding dispatch_def
  by (auto simp: unchanged_def reply_def sendall_def split: if_splits)

lemma loop_body_effect:
  assumes "loop_body s r nickname w = (ctl, nn, w')"
  shows "unchanged nickname w nn w' \<or> renamed s nickname w nn w' \<or> joined nickname w nn w'"
proof (cases r)
  case (Data d)
  with assms show ?thesis
    using dispatch_effect [of s "strip d" nickname w ctl nn w']
    by (auto simp: loop_body_def unchanged_def Let_def split: if_splits)
qed (use assms in \<open>auto simp: loop_body_def unchanged_def\<close>)

section \<open>Consistency is kept by every step\<close>

lemma set_set_add: "set (set_add n ms) = insert n (set ms)"
  by (auto simp: set_add_def)

lemma linkedD1: "linked cl ch nk \<Longrightarrow> nk s = Some n \<Longrightarrow> cl n = Some s"
  unfolding linked_def by blast

lemma linkedD2: "linked cl ch nk \<Longrightarrow> cl n = Some s \<Longrightarrow> nk s = Some n"
  unfolding linked_def by blast

lemma linkedD3: "linked cl ch nk \<Longrightarrow> nk s \<noteq> Some []"
  unfolding linked_def by blast

lemma linkedD4: "linked cl ch nk \<Longrightarrow> ch c = Some ms \<Longrightarrow> n \<in> set ms \<Longrightarrow> n \<in> dom cl"
  unfolding linked_def by blast

lemma linkedI:
  assumes "\<And>s n. nk s = Some n \<Longrightarrow> cl n = Some s"
    and "\<And>s n. cl n = Some s \<Longrightarrow> nk s = Some n"
    and "\<And>s. nk s \<noteq> Some []"
    and "\<And>c ms n. ch c = Some ms \<Longrightarrow> n \<in> set ms \<Longrightarrow> n \<in> dom cl"
  shows "linked cl ch nk"
  unfolding linked_def using assms by blast

lemma linked_unchanged:
  "linked cl ch nk \<Longrightarrow> nk s = v \<Longrightarrow> linked cl ch (nk(s := v))"
  by (metis fun_upd_triv)

lemma linked_unregister:
  assumes L: "linked cl ch nk" and old: "nk s = Some old"
  shows "linked (cl(old := None)) (\<lambda>c. map_option (removeAll old) (ch c)) (nk(s := None))"
proof (rule linkedI)
  fix s' n assume a: "(nk(s := None)) s' = Some n"
  then have ne: "s' \<noteq> s" by (cases "s' = s") simp_all
  with a have nk: "nk s' = Some n" by simp
  have "cl n = Some s'" by (rule linkedD1 [OF L nk])
  moreover have "cl old = Some s" by (rule linkedD1 [OF L old])
  ultimately have "n \<noteq> old" using ne by auto
  with \<open>cl n = Some s'\<close> show "(cl(old := None)) n = Some s'" by simp
next
  fix s' n assume a: "(cl(old := None)) n = Some s'"
  then have ne: "n \<noteq> old" by (cases "n = old") simp_all
  with a have "cl n = Some s'" by simp
  then have nk: "nk s' = Some n" by (rule linkedD2 [OF L])
  with old ne have "s' \<noteq> s" by auto
  with nk show "(nk(s := None)) s' = Some n" by simp
next
  fix s' show "(nk(s := None)) s' \<noteq> Some []"
    using linkedD3 [OF L, of s'] by simp
next
  fix c ms n
  assume a: "map_option (removeAll old) (ch c) = Some ms" and b: "n \<in> set ms"
  from a obtain ms0 where ms0: "ch c = Some ms0" "ms = removeAll old ms0" by auto
  with b have "n \<in> set ms0" "n \<noteq> old" by simp_all
  with linkedD4 [OF L ms0(1)] show "n \<in> dom (cl(old := None))" by simp
qed

lemma drop_old_linked:
  assumes L: "linked (clients w) (channels w) nk" and nk: "nk s = nickname"
  shows "linked (clients (drop_old nickname w)) (channels (drop_old nickname w)) (nk(s := None))"
proof (cases nickname)
  case None
  have "drop_old None w = w" by (simp add: drop_old_def)
  moreover have "nk s = None" using nk None by simp
  ultimately show ?thesis using linked_unchanged [OF L, of s None] None by simp
next
  case (Some old)
  have nk': "nk s = Some old" using nk Some by simp
  have "clients w old = Some s" by (rule linkedD1 [OF L nk'])
  moreover have "old \<noteq> []" using linkedD3 [OF L, of s] nk' by auto
  ultimately have "drop_old (Some old) w = remove_nickname old w"
    by (auto simp: drop_old_def)
  then show ?thesis
    using linked_unregister [OF L nk'] Some by (simp add: remove_nickname_def)
qed

lemma dom_drop_old: "dom (clients (drop_old nickname w)) \<subseteq> dom (clients w)"
  by (cases nickname) (auto simp: drop_old_def remove_nickname_def split: if_splits)

lemma linked_register:
  assumes L: "linked cl ch nk" and free: "nk s = None" and d: "d \<notin> dom cl" "d \<noteq> []"
  shows "linked (cl(d \<mapsto> s)) ch (nk(s := Some d))"
proof (rule linkedI)
  fix s' n assume a: "(nk(s := Some d)) s' = Some n"
  show "(cl(d \<mapsto> s)) n = Some s'"
  proof (cases "s' = s")
    case True
    with a show ?thesis by simp
  next
    case False
    with a have "nk s' = Some n" by simp
    then have c: "cl n = Some s'" by (rule linkedD1 [OF L])
    with d(1) have "n \<noteq> d" by auto
    with c show ?thesis by simp
  qed
next
  fix s' n assume a: "(cl(d \<mapsto> s)) n = Some s'"
  show "(nk(s := Some d)) s' = Some n"
  proof (cases "n = d")
    case True
    with a show ?thesis by simp
  next
    case False
    with a have "cl n = Some s'" by simp
    then have k: "nk s' = Some n" by (rule linkedD2 [OF L])
    with free have "s' \<noteq> s" by auto
    with k show ?thesis by simp
  qed
next
  fix s' show "(nk(s := Some d)) s' \<noteq> Some []"
    using linkedD3 [OF L, of s'] d(2) by simp
next
  fix c ms n assume "ch c = Some ms" "n \<in> set ms"
  then have "n \<in> dom cl" by (rule linkedD4 [OF L])
  then show "n \<in> dom (cl(d \<mapsto> s))" by simp
qed

lemma linked_renamed:
  assumes L: "linked (clients w) (channels w) nk" and nk: "nk s = nickname"
    and R: "renamed s nickname w nn w'"
  shows "linked (clients w') (channels w') (nk(s := nn))"
proof -
  from R obtain d where d: "d \<notin> dom (clients w)" "d \<noteq> []" "nn = Some d"
    "clients w' = (clients (drop_old nickname w))(d \<mapsto> s)"
    "channels w' = channels (drop_old nickname w)"
    unfolding renamed_def by blast
  let ?w1 = "drop_old nickname w"
  have l1: "linked (clients ?w1) (channels ?w1) (nk(s := None))"
    by (rule drop_old_linked [OF L nk])
  have "d \<notin> dom (clients ?w1)"
    using d(1) dom_drop_old [of nickname w] by blast
  from linked_register [OF l1 _ this d(2), of s]
  have "linked ((clients ?w1)(d \<mapsto> s)) (channels ?w1) (nk(s := Some d))" by simp
  with d(3,4,5) show ?thesis by simp
qed

lemma linked_joined:
  assumes L: "linked (clients w) (channels w) nk" and nk: "nk s = nickname"
    and J: "joined nickname w nn w'"
  shows "linked (clients w') (channels w') (nk(s := nn))"
proof -
  from J obtain n c where j: "nickname = Some n" "nn = nickname" "clients w' = clients w"
    "channels w' = (channels w)(c \<mapsto> set_add n (case channels w c of None \<Rightarrow> [] | Some ms \<Rightarrow> ms))"
    unfolding joined_def by blast
  have reg: "n \<in> dom (clients w)"
    using linkedD1 [OF L, of s n] nk j(1) by auto
  have "linked (clients w) (channels w') nk"
  proof (rule linkedI)
    fix c' ms' n'
    assume a: "channels w' c' = Some ms'" and b: "n' \<in> set ms'"
    show "n' \<in> dom (clients w)"
    proof (cases "c' = c")
      case True
      with a j(4) have "ms' = set_add n (case channels w c of None \<Rightarrow> [] | Some ms \<Rightarrow> ms)" by simp
      with b have "n' = n \<or> (\<exists>ms. channels w c = Some ms \<and> n' \<in> set ms)"
        by (cases "channels w c") (auto simp: set_set_add)
      with reg linkedD4 [OF L] show ?thesis by blast
    next
      case False
      with a j(4) have "channels w c' = Some ms'" by simp
      from linkedD4 [OF L this b] show ?thesis .
    qed
  qed (rule linkedD1 [OF L], assumption, rule linkedD2 [OF L], assumption, rule linkedD3 [OF L])
  from linked_unchanged [OF this, of s nn] nk j(2,3) show ?thesis by simp
qed

lemma loop_body_linked:
  assumes L: "linked (clients w) (channels w) nk" and nk: "nk s = nickname"
    and B: "loop_body s r nickname w = (ctl, nn, w')"
  shows "linked (clients w') (channels w') (nk(s := nn))"
proof -
  consider "unchanged nickname w nn w'" | "renamed s nickname w nn w'" | "joined nickname w nn w'"
    using loop_body_effect [OF B] by blast
  then show ?thesis
  proof cases
    case 1
    then have "nn = nickname" "clients w' = clients w" "channels w' = channels w"
      by (simp_all add: unchanged_def)
    with linked_unchanged [OF L, of s nn] nk show ?thesis by simp
  next
    case 2
    then show ?thesis by (rule linked_renamed [OF L nk])
  next
    case 3
    then show ?thesis by (rule linked_joined [OF L nk])
  qed
qed

lemma reply_not_pending: "reply s line nickname w \<noteq> (Call_broadcast n c m, nn, w')"
  by (simp add: reply_def)

lemma nick_command_not_pending:
  "nick_command s msg nickname w \<noteq> (Call_broadcast n c m, nn, w')"
proof (cases "split_sp 1 msg" rule: two_parts_cases)
  case (two a b)
  then show ?thesis
    by (simp add: nick_command_def Let_def reply_not_pending del: split_sp.simps)
next
  case other
  then show ?thesis
    by (simp add: nick_command_def case_two_other del: split_sp.simps)
qed

lemma join_command_not_pending:
  "join_command s msg nickname w \<noteq> (Call_broadcast n c m, nn, w')"
proof (cases "split_sp 1 msg" rule: two_parts_cases)
  case (two a b)
  then show ?thesis
    by (simp add: join_command_def Let_def reply_not_pending del: split_sp.simps split: option.splits)
next
  case other
  then show ?thesis
    by (simp add: join_command_def case_two_other del: split_sp.simps)
qed

lemma pm_command_not_pending:
  "pm_command s msg nickname w \<noteq> (Call_broadcast n c m, nn, w')"
proof (cases "split_sp 2 msg" rule: three_parts_cases)
  case (three a b c)
  then show ?thesis
    by (simp add: pm_command_def Let_def reply_not_pending del: split_sp.simps
             split: option.splits prod.splits)
next
  case other
  then show ?thesis
    by (simp add: pm_command_def case_three_other reply_not_pending del: split_sp.simps)
qed

lemma send_command_pending:
  assumes "send_command s msg nickname w = (Call_broadcast n c m, nn, w')"
  shows "nickname = Some n \<and> nn = Some n \<and> w' = w \<and> is_member n c w \<and> n \<noteq> []"
proof (cases "split_sp 2 msg" rule: three_parts_cases)
  case (three a b c)
  with assms show ?thesis
    by (simp add: send_command_def reply_not_pending del: split_sp.simps
             split: option.splits if_splits)
next
  case other
  with assms show ?thesis
    by (simp add: send_command_def case_three_other reply_not_pending del: split_sp.simps)
qed

lemma dispatch_pending:
  assumes "dispatch s msg nickname w = (Call_broadcast n c m, nn, w')"
  shows "nickname = Some n \<and> nn = Some n \<and> w' = w \<and> is_member n c w \<and> n \<noteq> []"
  using assms send_command_pending [of s msg nickname w n c m nn w']
  by (simp add: dispatch_def nick_command_not_pending join_command_not_pending
        pm_command_not_pending reply_not_pending split: if_splits)

lemma loop_body_pending:
  assumes "loop_body s r nickname w = (Call_broadcast n c m, nn, w')"
  shows "nickname = Some n \<and> nn = Some n \<and> w' = w \<and> is_member n c w \<and> n \<noteq> []"
proof (cases r)
  case (Data d)
  with assms show ?thesis
    using dispatch_pending [of s "strip d" nickname w n c m nn w']
    by (simp add: loop_body_def Let_def split: if_splits)
qed (use assms in \<open>simp_all add: loop_body_def\<close>)

lemma send_banner_shared:
  "send_banner s w = (raised, w') \<Longrightarrow> clients w' = clients w \<and> channels w' = channels w"
  by (auto simp: send_banner_def banner_def sendall_def split: if_splits)

lemma nick_fun_upd:
  "(\<lambda>x. nick_of ((th(s := T)) x)) = (\<lambda>x. nick_of (th x))(s := nick_of T)"
  by auto

lemma consistent_update:
  assumes "linked (clients w') (channels w') ((\<lambda>x. nick_of (threads cfg x))(s := nick_of T))"
  shows "consistent (cfg\<lparr>shared := w', threads := (threads cfg)(s := T)\<rparr>)"
proof -
  let ?cfg = "cfg\<lparr>shared := w', threads := (threads cfg)(s := T)\<rparr>"
  have e1: "shared ?cfg = w'" by simp
  have e2: "(\<lambda>x. nick_of (threads ?cfg x)) = (\<lambda>x. nick_of (threads cfg x))(s := nick_of T)"
    by auto
  show ?thesis unfolding consistent_def e1 e2 by (rule assms)
qed

lemma step_consistent:
  assumes C: "consistent cfg"
  shows "consistent (step e cfg)"
proof -
  let ?nk = "\<lambda>x. nick_of (threads cfg x)"
  let ?w = "shared cfg"
  have L: "linked (clients ?w) (channels ?w) ?nk"
    using C by (simp add: consistent_def)
  show ?thesis
  proof (cases e)
    case (Connect s)
    show ?thesis
    proof (cases "threads cfg s")
      case Absent
      obtain raised w1 where b: "send_banner s ?w = (raised, w1)" by fastforce
      have eq: "clients w1 = clients ?w" "channels w1 = channels ?w"
        using send_banner_shared [OF b] by simp_all
      have "?nk s = None" using Absent by simp
      from linked_unchanged [OF L this]
      have "linked (clients w1) (channels w1)
              (?nk(s := nick_of (if raised then Crashed None else Running None)))"
        using eq by simp
      from consistent_update [OF this] show ?thesis
        using Connect Absent b by (simp add: step_def)
    qed (use C Connect in \<open>simp_all add: step_def\<close>)
  next
    case (Input s r)
    show ?thesis
    proof (cases "threads cfg s")
      case (Running nickname)
      obtain ctl nn w1 where b: "loop_body s r nickname ?w = (ctl, nn, w1)"
        by (metis prod_cases3)
      have nk: "?nk s = nickname" using Running by simp
      have L1: "linked (clients w1) (channels w1) (?nk(s := nn))"
        by (rule loop_body_linked [OF L nk b])
      show ?thesis
      proof (cases ctl)
        case Continue
        from consistent_update [of w1 cfg s "Running nn"] L1 show ?thesis
          using Input Running b Continue by (simp add: step_def)
      next
        case Break
        have "linked (clients (drop_old nn w1)) (channels (drop_old nn w1)) ((?nk(s := nn))(s := None))"
          by (rule drop_old_linked [OF L1]) simp
        then have "linked (clients (cleanup s nn w1)) (channels (cleanup s nn w1)) (?nk(s := nick_of Closed))"
          by (simp add: cleanup_def Let_def)
        from consistent_update [OF this] show ?thesis
          using Input Running b Break by (simp add: step_def)
      next
        case Raise
        from consistent_update [of w1 cfg s "Crashed nn"] L1 show ?thesis
          using Input Running b Raise by (simp add: step_def)
      next
        case (Call_broadcast n c m)
        with b have "nn = Some n" using loop_body_pending by blast
        with consistent_update [of w1 cfg s "Pending n c m"] L1 show ?thesis
          using Input Running b Call_broadcast by (simp add: step_def)
      qed
    qed (use C Input in \<open>simp_all add: step_def\<close>)
  next
    case (Resume s)
    show ?thesis
    proof (cases "threads cfg s")
      case (Pending n c m)
      let ?w1 = "broadcast_channel_message n c m ?w"
      have "?nk s = Some n" using Pending by simp
      from linked_unchanged [OF L this]
      have "linked (clients ?w1) (channels ?w1) (?nk(s := nick_of (Running (Some n))))"
        by (simp add: broadcast_shared)
      from consistent_update [OF this] show ?thesis
        using Resume Pending by (simp add: step_def)
    qed (use C Resume in \<open>simp_all add: step_def\<close>)
  next
    case (Sever s)
    with C show ?thesis by (simp add: step_def consistent_def)
  qed
qed

lemma run_consistent: "consistent cfg \<Longrightarrow> consistent (run es cfg)"
  by (induction es arbitrary: cfg) (simp_all add: step_consistent)

lemma initial_consistent: "consistent initial"
  by (simp add: consistent_def linked_def initial_def)

section \<open>Evaluating the commands\<close>

lemma strip_Nil: "strip [] = []"
  by (simp add: strip_def)

lemma loop_body_message:
  "strip d \<noteq> [] \<Longrightarrow> loop_body s (Data d) nickname w = dispatch s (strip d) nickname w"
  by (auto simp: loop_body_def Let_def strip_Nil)

lemma command_reply:
  "loop_body s r nickname w = reply s line nn w1
     \<Longrightarrow> command s r nickname w = reply s line nn w1"
  by (simp add: command_def reply_def)

lemma dispatch_unknown:
  assumes "m = ''/nick'' \<or> m = ''/join'' \<or> m = ''/send'' \<or> m = ''/pm'' \<or> (m = ''/quit'' @ t \<and> t \<noteq> [])"
  shows "dispatch s m nickname w = reply s unknown_line nickname w"
proof -
  have "dispatch s ''/nick'' nickname w = reply s unknown_line nickname w"
    and "dispatch s ''/join'' nickname w = reply s unknown_line nickname w"
    and "dispatch s ''/send'' nickname w = reply s unknown_line nickname w"
    and "dispatch s ''/pm'' nickname w = reply s unknown_line nickname w"
    by (simp_all add: dispatch_def startswith_def)
  moreover have "dispatch s (''/quit'' @ t) nickname w = reply s unknown_line nickname w"
    if "t \<noteq> []"
    using sw_quit [of t] that by (simp add: dispatch_def)
  ultimately show ?thesis using assms by blast
qed

lemma sent_drop_old: "sent (drop_old nickname w) = sent w \<and> broken (drop_old nickname w) = broken w"
  by (cases nickname) (simp_all add: drop_old_def remove_nickname_def)

lemma nick_command_eq:
  assumes "strip arg = n" and "n \<noteq> []"
  shows "nick_command s (''/nick '' @ arg) nickname w =
     (if n \<in> dom (clients w) then reply s taken_line nickname w
      else reply s (nick_set_line n) (Some n)
             ((drop_old nickname w)\<lparr>clients := (clients (drop_old nickname w))(n \<mapsto> s)\<rparr>))"
  using assms split_nick [of arg]
  by (simp add: nick_command_def Let_def del: split_sp.simps)

lemma loop_body_nick:
  assumes d: "strip d = ''/nick '' @ arg" and n: "n = strip arg"
  shows "loop_body s (Data d) nickname w =
     (if n \<in> dom (clients w) then reply s taken_line nickname w
      else reply s (nick_set_line n) (Some n)
             ((drop_old nickname w)\<lparr>clients := (clients (drop_old nickname w))(n \<mapsto> s)\<rparr>))"
proof -
  have ne: "n \<noteq> []"
    using strip_arg_nonempty [of d "''/nick''" arg] d n by simp
  have "loop_body s (Data d) nickname w = nick_command s (''/nick '' @ arg) nickname w"
    using loop_body_message [of d s nickname w] d sw_nick [of arg]
    by (simp add: dispatch_def)
  then show ?thesis
    using nick_command_eq [OF n [symmetric] ne, of s nickname w] by simp
qed

lemma command_nick:
  assumes d: "strip d = ''/nick '' @ arg" and n: "n = strip arg"
  shows "command s (Data d) nickname w =
     (if n \<in> dom (clients w) then reply s taken_line nickname w
      else reply s (nick_set_line n) (Some n)
             ((drop_old nickname w)\<lparr>clients := (clients (drop_old nickname w))(n \<mapsto> s)\<rparr>))"
  using loop_body_nick [OF assms, of s nickname w]
  by (cases "n \<in> dom (clients w)") (simp_all add: command_reply)

lemma command_send:
  assumes d: "strip d = ''/send '' @ c @ SP # m" and c: "SP \<notin> set c" and n: "n \<noteq> []"
  shows "loop_body s (Data d) (Some n) w =
     (if is_member n c w then (Call_broadcast n c m, Some n, w)
      else reply s (must_join_line c) (Some n) w)"
proof -
  have "loop_body s (Data d) (Some n) w = send_command s (''/send '' @ c @ SP # m) (Some n) w"
    using loop_body_message [of d s "Some n" w] d sw_send [of "c @ SP # m"]
    by (simp add: dispatch_def)
  then show ?thesis
    using split_send3 [OF c, of m] n
    by (simp add: send_command_def del: split_sp.simps)
qed

lemma loop_body_pm:
  assumes d: "strip d = ''/pm '' @ t @ SP # m" and t: "SP \<notin> set t" and n: "n \<noteq> []"
  shows "loop_body s (Data d) (Some n) w =
     (let (raised, w1) = private_message n t m w
      in (if raised then Raise else Continue, Some n, w1))"
proof -
  have "loop_body s (Data d) (Some n) w = pm_command s (''/pm '' @ t @ SP # m) (Some n) w"
    using loop_body_message [of d s "Some n" w] d sw_pm [of "t @ SP # m"]
    by (simp add: dispatch_def)
  then show ?thesis
    using split_pm3 [OF t, of m] n
    by (simp add: pm_command_def del: split_sp.simps)
qed

lemma loop_body_join:
  assumes d: "strip d = ''/join '' @ arg" and c: "c = strip arg" and n: "n \<noteq> []"
  shows "loop_body s (Data d) (Some n) w =
     reply s (joined_line c) (Some n)
       (w\<lparr>channels := (channels w)
            (c \<mapsto> set_add n (case channels w c of None \<Rightarrow> [] | Some ms \<Rightarrow> ms))\<rparr>)"
proof -
  have ne: "c \<noteq> []"
    using strip_arg_nonempty [of d "''/join''" arg] d c by simp
  have "loop_body s (Data d) (Some n) w = join_command s (''/join '' @ arg) (Some n) w"
    using loop_body_message [of d s "Some n" w] d sw_join [of arg]
    by (simp add: dispatch_def)
  also have "\<dots> = reply s (joined_line c) (Some n)
       (w\<lparr>channels := (channels w)
            (c \<mapsto> set_add n (case channels w c of None \<Rightarrow> [] | Some ms \<Rightarrow> ms))\<rparr>)"
    using split_join [of arg] c ne n
    by (simp add: join_command_def Let_def del: split_sp.simps)
  finally show ?thesis .
qed

lemma command_join:
  assumes d: "strip d = ''/join '' @ arg" and c: "c = strip arg" and n: "n \<noteq> []"
  shows "command s (Data d) (Some n) w =
     reply s (joined_line c) (Some n)
       (w\<lparr>channels := (channels w)
            (c \<mapsto> set_add n (case channels w c of None \<Rightarrow> [] | Some ms \<Rightarrow> ms))\<rparr>)"
  using loop_body_join [OF assms, of s w] by (rule command_reply)

lemma set_add_twice: "set_add n (set_add n ms) = set_add n ms"
  by (simp add: set_add_def)

lemma deliver_sent:
  "deliver a c m ms w =
     w\<lparr>sent := sent w @
        List.map_filter
          (\<lambda>n. if n \<noteq> a then map_option (\<lambda>h. (h, channel_line c a m)) (clients w n) else None) ms\<rparr>"
proof (induction ms arbitrary: w)
  case Nil
  show ?case by (simp add: map_filter_simps)
next
  case (Cons n ms)
  show ?case
    by (cases "clients w n") (simp_all add: Cons.IH map_filter_simps sendall_def cong: if_cong)
qed

lemma set_map_filter: "set (List.map_filter f xs) = {y. \<exists>x \<in> set xs. f x = Some y}"
  by (induction xs) (auto simp: map_filter_simps split: option.splits)

lemma strip_quit: "strip (''/quit'' @ [NL]) = ''/quit''"
  by (simp add: strip_def py_isspace_def)

lemma dispatch_quit:
  "dispatch s ''/quit'' nickname w =
     (if s \<in> broken w then Raise else Break, nickname, sendall s quit_line w)"
  by (simp add: dispatch_def startswith_def)

section \<open>Runs of the server\<close>

lemma run_append: "run (es @ es') cfg = run es' (run es cfg)"
  by (induction es arbitrary: cfg) simp_all

lemma run_commands_Cons:
  "run_commands (a # acts) cfg = run_commands acts (run (events_of a) cfg)"
  by (simp add: run_commands_def run_append)

lemma run_commands_Nil: "run_commands [] cfg = cfg"
  by (simp add: run_commands_def)

lemma run_commands_consistent: "consistent cfg \<Longrightarrow> consistent (run_commands acts cfg)"
  by (simp add: run_commands_def run_consistent)

lemma consistent_one_name_per_socket:
  assumes "consistent cfg" and "clients (shared cfg) n = Some h" and "clients (shared cfg) n' = Some h"
  shows "n = n'"
proof -
  have L: "linked (clients (shared cfg)) (channels (shared cfg)) (\<lambda>s. nick_of (threads cfg s))"
    using assms(1) by (simp add: consistent_def)
  have "nick_of (threads cfg h) = Some n" by (rule linkedD2 [OF L assms(2)])
  moreover have "nick_of (threads cfg h) = Some n'" by (rule linkedD2 [OF L assms(3)])
  ultimately show ?thesis by simp
qed

text \<open>
  In every state of every run, whatever the order of the threads' steps, the names
  registered to a socket are exactly the current nickname of its thread, if it has one.
\<close>

lemma registered_names_of_socket:
  "{n. clients (shared (run es initial)) n = Some s} =
     (case nick_of (threads (run es initial) s) of None \<Rightarrow> {} | Some n \<Rightarrow> {n})"
proof -
  let ?cfg = "run es initial"
  have "consistent ?cfg" by (rule run_consistent [OF initial_consistent])
  then have L: "linked (clients (shared ?cfg)) (channels (shared ?cfg)) (\<lambda>x. nick_of (threads ?cfg x))"
    by (simp add: consistent_def)
  show ?thesis
  proof (cases "nick_of (threads ?cfg s)")
    case None
    have "clients (shared ?cfg) n \<noteq> Some s" for n
      using linkedD2 [OF L, of n s] None by auto
    with None show ?thesis by simp
  next
    case (Some n)
    have reg: "clients (shared ?cfg) n = Some s" using linkedD1 [OF L, of s n] Some by simp
    have uniq: "n' = n" if "clients (shared ?cfg) n' = Some s" for n'
      using linkedD2 [OF L that] Some by simp
    have "{n. clients (shared ?cfg) n = Some s} = {n}"
    proof (intro equalityI subsetI)
      fix x assume "x \<in> {n. clients (shared ?cfg) n = Some s}"
      then have "clients (shared ?cfg) x = Some s" by simp
      from uniq [OF this] show "x \<in> {n}" by simp
    next
      fix x assume "x \<in> {n}"
      with reg show "x \<in> {n. clients (shared ?cfg) n = Some s}" by simp
    qed
    then show ?thesis unfolding Some by simp
  qed
qed


lemma command_whole:
  assumes "threads cfg s = Running nickname"
    and "command s r nickname (shared cfg) = (ctl, nn, w1)"
  shows "run (events_of (Command s r)) cfg =
     cfg\<lparr>shared := (if ctl = Break then cleanup s nn w1 else w1),
         threads := (threads cfg)
           (s := case ctl of Continue \<Rightarrow> Running nn | Break \<Rightarrow> Closed | Raise \<Rightarrow> Crashed nn
                 | Call_broadcast n c m \<Rightarrow> Running nn)\<rparr>"
proof -
  obtain ctl0 nn0 w0 where b: "loop_body s r nickname (shared cfg) = (ctl0, nn0, w0)"
    by (metis prod_cases3)
  show ?thesis
  proof (cases ctl0)
    case (Call_broadcast n c m)
    with b have p: "nn0 = Some n" "w0 = shared cfg"
      using loop_body_pending [of s r nickname "shared cfg" n c m nn0 w0] by simp_all
    from b Call_broadcast assms(2) have "ctl = Continue" "nn = nn0"
      "w1 = broadcast_channel_message n c m w0"
      by (simp_all add: command_def)
    with b Call_broadcast p assms(1) show ?thesis
      by (simp add: step_def)
  next
    case Continue
    with b assms(2) have "ctl = Continue" "nn = nn0" "w1 = w0" by (simp_all add: command_def)
    with b Continue assms(1) show ?thesis by (simp add: step_def)
  next
    case Break
    with b assms(2) have "ctl = Break" "nn = nn0" "w1 = w0" by (simp_all add: command_def)
    with b Break assms(1) show ?thesis by (simp add: step_def)
  next
    case Raise
    with b assms(2) have "ctl = Raise" "nn = nn0" "w1 = w0" by (simp_all add: command_def)
    with b Raise assms(1) show ?thesis by (simp add: step_def)
  qed
qed

lemma command_whole_continue:
  assumes "threads cfg s = Running nickname"
    and "command s r nickname (shared cfg) = (Continue, nn, w1)"
  shows "run (events_of (Command s r)) cfg =
     cfg\<lparr>shared := w1, threads := (threads cfg)(s := Running nn)\<rparr>"
  using command_whole [OF assms] by simp

lemma accept_fresh:
  assumes "threads cfg s = Absent" and "s \<notin> broken (shared cfg)"
  shows "threads (step (Connect s) cfg) = (threads cfg)(s := Running None)"
    and "clients (shared (step (Connect s) cfg)) = clients (shared cfg)"
    and "channels (shared (step (Connect s) cfg)) = channels (shared cfg)"
    and "broken (shared (step (Connect s) cfg)) = broken (shared cfg)"
  using assms by (simp_all add: step_def send_banner_def banner_def sendall_def)

lemma strip_examples:
  "strip (''/nick alice'' @ [NL]) = ''/nick '' @ ''alice''"
  "strip (''/nick bob'' @ [NL]) = ''/nick '' @ ''bob''"
  "strip (''/join lobby'' @ [NL]) = ''/join '' @ ''lobby''"
  "strip (''/send lobby hi'' @ [NL]) = ''/send '' @ ''lobby'' @ SP # ''hi''"
  "strip ''alice'' = ''alice''" "strip ''bob'' = ''bob''" "strip ''lobby'' = ''lobby''"
  by (simp_all add: strip_def py_isspace_def)

lemma strip_send: "strip (''/send lobby hi'' @ [NL]) = ''/send '' @ ''lobby'' @ SP # ''hi''"
  by (simp add: strip_def py_isspace_def)

lemma lobby_cfg_facts:
  "clients (shared lobby_cfg) = [''alice'' \<mapsto> 1, ''bob'' \<mapsto> 2]"
  "channels (shared lobby_cfg) = [''lobby'' \<mapsto> [''alice'']]"
  "threads lobby_cfg = (\<lambda>s. Absent)(1 := Running (Some ''alice''), 2 := Running (Some ''bob''))"
  "broken (shared lobby_cfg) = {}"
proof -
  define c1 where "c1 = step (Connect 1) initial"
  have c1: "threads c1 = (\<lambda>s. Absent)(1 := Running None)" "clients (shared c1) = Map.empty"
    "channels (shared c1) = Map.empty" "broken (shared c1) = {}"
    unfolding c1_def
    using accept_fresh [of initial 1] by (simp_all add: initial_def)
  define c2 where "c2 = step (Connect 2) c1"
  have c2: "threads c2 = (\<lambda>s. Absent)(1 := Running None, 2 := Running None)"
    "clients (shared c2) = Map.empty" "channels (shared c2) = Map.empty" "broken (shared c2) = {}"
    unfolding c2_def
    using accept_fresh [of c1 2] c1 by simp_all
  define c3 where "c3 = run (events_of (Command 1 (Data (''/nick alice'' @ [NL])))) c2"
  have "command 1 (Data (''/nick alice'' @ [NL])) None (shared c2) =
      (Continue, Some ''alice'',
       (shared c2)\<lparr>clients := [''alice'' \<mapsto> 1],
                    sent := sent (shared c2) @ [(1, nick_set_line ''alice'')]\<rparr>)"
    using command_nick [OF strip_examples(1) strip_examples(5) [symmetric], of 1 None "shared c2"] c2
    by (simp add: reply_def sendall_def drop_old_def)
  from command_whole_continue [OF _ this, folded c3_def] c2
  have c3: "threads c3 = (\<lambda>s. Absent)(1 := Running (Some ''alice''), 2 := Running None)"
    "clients (shared c3) = [''alice'' \<mapsto> 1]" "channels (shared c3) = Map.empty"
    "broken (shared c3) = {}"
    by (simp_all add: fun_upd_twist)
  define c4 where "c4 = run (events_of (Command 2 (Data (''/nick bob'' @ [NL])))) c3"
  have "command 2 (Data (''/nick bob'' @ [NL])) None (shared c3) =
      (Continue, Some ''bob'',
       (shared c3)\<lparr>clients := [''alice'' \<mapsto> 1, ''bob'' \<mapsto> 2],
                    sent := sent (shared c3) @ [(2, nick_set_line ''bob'')]\<rparr>)"
    using command_nick [OF strip_examples(2) strip_examples(6) [symmetric], of 2 None "shared c3"] c3
    by (simp add: reply_def sendall_def drop_old_def)
  from command_whole_continue [OF _ this, folded c4_def] c3
  have c4: "threads c4 = (\<lambda>s. Absent)(1 := Running (Some ''alice''), 2 := Running (Some ''bob''))"
    "clients (shared c4) = [''alice'' \<mapsto> 1, ''bob'' \<mapsto> 2]" "channels (shared c4) = Map.empty"
    "broken (shared c4) = {}"
    by simp_all
  define c5 where "c5 = run (events_of (Command 1 (Data (''/join lobby'' @ [NL])))) c4"
  have "command 1 (Data (''/join lobby'' @ [NL])) (Some ''alice'') (shared c4) =
      (Continue, Some ''alice'',
       (shared c4)\<lparr>channels := [''lobby'' \<mapsto> [''alice'']],
                    sent := sent (shared c4) @ [(1, joined_line ''lobby'')]\<rparr>)"
    using command_join [OF strip_examples(3) strip_examples(7) [symmetric], of "''alice''" 1 "shared c4"] c4
    by (simp add: reply_def sendall_def set_add_def)
  from command_whole_continue [OF _ this, folded c5_def] c4
  have c5: "threads c5 = (\<lambda>s. Absent)(1 := Running (Some ''alice''), 2 := Running (Some ''bob''))"
    "clients (shared c5) = [''alice'' \<mapsto> 1, ''bob'' \<mapsto> 2]"
    "channels (shared c5) = [''lobby'' \<mapsto> [''alice'']]"
    "broken (shared c5) = {}"
    by (simp_all add: fun_upd_twist)
  have "lobby_cfg = c5"
    by (simp add: lobby_cfg_def run_commands_Cons run_commands_Nil c1_def c2_def c3_def c4_def c5_def
          del: events_of.simps(2))
  with c5 show "clients (shared lobby_cfg) = [''alice'' \<mapsto> 1, ''bob'' \<mapsto> 2]"
    "channels (shared lobby_cfg) = [''lobby'' \<mapsto> [''alice'']]"
    "threads lobby_cfg = (\<lambda>s. Absent)(1 := Running (Some ''alice''), 2 := Running (Some ''bob''))"
    "broken (shared lobby_cfg) = {}"
    by simp_all
qed

lemma lobby_check:
  "step (Input 1 (Data (''/send lobby hi'' @ [NL]))) lobby_cfg =
     lobby_cfg\<lparr>threads := (threads lobby_cfg)(1 := Pending ''alice'' ''lobby'' ''hi'')\<rparr>"
proof -
  have "loop_body 1 (Data (''/send lobby hi'' @ [NL])) (Some ''alice'') (shared lobby_cfg) =
      (Call_broadcast ''alice'' ''lobby'' ''hi'', Some ''alice'', shared lobby_cfg)"
    using command_send [OF strip_send, of "''alice''" 1 "shared lobby_cfg"]
    by (simp add: is_member_def lobby_cfg_facts)
  then show ?thesis
    by (simp add: step_def lobby_cfg_facts)
qed

lemma lobby_join:
  "step (Input 2 (Data (''/join lobby'' @ [NL])))
     (lobby_cfg\<lparr>threads := (threads lobby_cfg)(1 := Pending ''alice'' ''lobby'' ''hi'')\<rparr>) =
   lobby_cfg
     \<lparr>shared := (shared lobby_cfg)
        \<lparr>channels := [''lobby'' \<mapsto> [''alice'', ''bob'']],
         sent := sent (shared lobby_cfg) @ [(2, joined_line ''lobby'')]\<rparr>,
      threads := (threads lobby_cfg)(1 := Pending ''alice'' ''lobby'' ''hi'')\<rparr>"
proof -
  have "loop_body 2 (Data (''/join lobby'' @ [NL])) (Some ''bob'') (shared lobby_cfg) =
      (Continue, Some ''bob'',
       (shared lobby_cfg)\<lparr>channels := [''lobby'' \<mapsto> [''alice'', ''bob'']],
                          sent := sent (shared lobby_cfg) @ [(2, joined_line ''lobby'')]\<rparr>)"
    using loop_body_join [OF strip_examples(3) strip_examples(7) [symmetric], of "''bob''" 2 "shared lobby_cfg"]
    by (simp add: lobby_cfg_facts set_add_def reply_def sendall_def)
  then show ?thesis
    by (simp add: step_def lobby_cfg_facts fun_upd_twist)
qed

section \<open>Other threads between the check and the broadcast of \<open>/send\<close>\<close>

lemma step_other_thread:
  assumes "sock_of e \<noteq> s"
  shows "threads (step e cfg) s = threads cfg s"
proof (cases e)
  case (Connect s')
  with assms show ?thesis
    by (cases "threads cfg s'") (simp_all add: step_def split: prod.splits)
next
  case (Input s' r)
  show ?thesis
  proof (cases "threads cfg s'")
    case (Running nickname)
    obtain ctl nn w1 where "loop_body s' r nickname (shared cfg) = (ctl, nn, w1)"
      by (metis prod_cases3)
    with Input Running assms show ?thesis
      by (cases ctl) (simp_all add: step_def)
  qed (use Input in \<open>simp_all add: step_def\<close>)
next
  case (Resume s')
  with assms show ?thesis
    by (cases "threads cfg s'") (simp_all add: step_def)
next
  case (Sever s')
  then show ?thesis by (simp add: step_def)
qed

lemma is_member_drop_old:
  assumes "is_member n c w" and "nickname \<noteq> Some n"
  shows "is_member n c (drop_old nickname w)"
proof (cases nickname)
  case None
  with assms show ?thesis by (simp add: drop_old_def)
next
  case (Some old)
  with assms(2) have "old \<noteq> n" by simp
  with assms(1) have "is_member n c (remove_nickname old w)"
    by (auto simp: is_member_def remove_nickname_def split: option.splits)
  with assms(1) Some show ?thesis by (simp add: drop_old_def)
qed

lemma is_member_joined:
  assumes "is_member n c w"
    and "channels w' = (channels w)(c' \<mapsto> set_add n' (case channels w c' of None \<Rightarrow> [] | Some ms \<Rightarrow> ms))"
  shows "is_member n c w'"
  using assms by (auto simp: is_member_def set_set_add split: option.splits)

lemma loop_body_keeps_membership:
  assumes m: "is_member n c w" and other: "nickname \<noteq> Some n"
    and b: "loop_body s' r nickname w = (ctl, nn, w1)"
  shows "is_member n c w1"
proof -
  consider "unchanged nickname w nn w1" | "renamed s' nickname w nn w1" | "joined nickname w nn w1"
    using loop_body_effect [OF b] by blast
  then show ?thesis
  proof cases
    case 1
    then show ?thesis using m by (simp add: unchanged_def is_member_def)
  next
    case 2
    then have "channels w1 = channels (drop_old nickname w)"
      unfolding renamed_def by blast
    with is_member_drop_old [OF m other] show ?thesis
      by (simp add: is_member_def)
  next
    case 3
    then obtain n' c' where
      "channels w1 = (channels w)(c' \<mapsto> set_add n' (case channels w c' of None \<Rightarrow> [] | Some ms \<Rightarrow> ms))"
      unfolding joined_def by blast
    from is_member_joined [OF m this] show ?thesis .
  qed
qed

lemma step_keeps_membership:
  assumes C: "consistent cfg" and nk: "nick_of (threads cfg s) = Some n"
    and other: "sock_of e \<noteq> s" and m: "is_member n c (shared cfg)"
  shows "is_member n c (shared (step e cfg))"
proof -
  let ?nk = "\<lambda>x. nick_of (threads cfg x)"
  have L: "linked (clients (shared cfg)) (channels (shared cfg)) ?nk"
    using C by (simp add: consistent_def)
  show ?thesis
  proof (cases e)
    case (Connect s')
    show ?thesis
    proof (cases "threads cfg s'")
      case Absent
      obtain raised w1 where b: "send_banner s' (shared cfg) = (raised, w1)" by fastforce
      with Connect Absent have "shared (step e cfg) = w1" by (simp add: step_def)
      with send_banner_shared [OF b] m show ?thesis by (simp add: is_member_def)
    qed (use Connect m in \<open>simp_all add: step_def\<close>)
  next
    case (Resume s')
    show ?thesis
    proof (cases "threads cfg s'")
      case (Pending n' c' m')
      with Resume have "shared (step e cfg) = broadcast_channel_message n' c' m' (shared cfg)"
        by (simp add: step_def)
      with m show ?thesis by (simp add: is_member_def broadcast_shared)
    qed (use Resume m in \<open>simp_all add: step_def\<close>)
  next
    case (Input s' r)
    with other have ne: "s' \<noteq> s" by simp
    show ?thesis
    proof (cases "threads cfg s'")
      case (Running nickname)
      obtain ctl nn w1 where b: "loop_body s' r nickname (shared cfg) = (ctl, nn, w1)"
        by (metis prod_cases3)
      have nk': "?nk s' = nickname" using Running by simp
      have o1: "nickname \<noteq> Some n"
      proof
        assume "nickname = Some n"
        with nk' have "clients (shared cfg) n = Some s'" using linkedD1 [OF L] by simp
        moreover have "clients (shared cfg) n = Some s" by (rule linkedD1 [OF L nk])
        ultimately show False using ne by simp
      qed
      have m1: "is_member n c w1" by (rule loop_body_keeps_membership [OF m o1 b])
      have L1: "linked (clients w1) (channels w1) (?nk(s' := nn))"
        by (rule loop_body_linked [OF L nk' b])
      have o2: "nn \<noteq> Some n"
      proof
        assume "nn = Some n"
        then have "clients w1 n = Some s'" using linkedD1 [OF L1, of s' n] by simp
        moreover have "clients w1 n = Some s" using linkedD1 [OF L1, of s n] nk ne by simp
        ultimately show False using ne by simp
      qed
      have m2: "is_member n c (cleanup s' nn w1)"
        using is_member_drop_old [OF m1 o2]
        by (simp add: cleanup_def Let_def is_member_def)
      from Input Running b m1 m2 show ?thesis
        by (cases ctl) (simp_all add: step_def)
    qed (use Input m in \<open>simp_all add: step_def\<close>)
  next
    case (Sever s')
    with m show ?thesis by (simp add: step_def is_member_def)
  qed
qed

lemma run_keeps_membership:
  assumes "consistent cfg" and "nick_of (threads cfg s) = Some n"
    and "\<forall>e \<in> set es. sock_of e \<noteq> s" and "is_member n c (shared cfg)"
  shows "threads (run es cfg) s = threads cfg s \<and> is_member n c (shared (run es cfg))"
  using assms
proof (induction es arbitrary: cfg)
  case Nil
  then show ?case by simp
next
  case (Cons e es)
  from Cons.prems(3) have e: "sock_of e \<noteq> s" and es: "\<forall>e \<in> set es. sock_of e \<noteq> s"
    by simp_all
  have t: "threads (step e cfg) s = threads cfg s" by (rule step_other_thread [OF e])
  have "threads (run es (step e cfg)) s = threads (step e cfg) s
        \<and> is_member n c (shared (run es (step e cfg)))"
  proof (rule Cons.IH)
    show "consistent (step e cfg)" by (rule step_consistent [OF Cons.prems(1)])
    show "nick_of (threads (step e cfg) s) = Some n" using t Cons.prems(2) by simp
    show "\<forall>e \<in> set es. sock_of e \<noteq> s" by (rule es)
    show "is_member n c (shared (step e cfg))"
      by (rule step_keeps_membership [OF Cons.prems(1,2) e Cons.prems(4)])
  qed
  with t show ?case by simp
qed

section \<open>The end of a session\<close>

text \<open>
  When the loop ends by \<open>break\<close>, on the empty read, on \<open>ConnectionResetError\<close> from
  \<open>recv\<close>, or on \<open>/quit\<close> once the closing line has been written, the thread's
  nickname is afterwards neither registered nor a member of any channel.
\<close>

lemma cleanup_on_break:
  assumes C: "consistent cfg" and t: "threads cfg s = Running (Some n)"
    and r: "r = Empty \<or> r = Reset \<or> r = Data []
            \<or> (\<exists>d. r = Data d \<and> strip d = ''/quit'' \<and> s \<notin> broken (shared cfg))"
  shows "threads (step (Input s r) cfg) s = Closed
    \<and> n \<notin> dom (clients (shared (step (Input s r) cfg)))
    \<and> (\<forall>c. \<not> is_member n c (shared (step (Input s r) cfg)))"
proof -
  let ?w = "shared cfg"
  have L: "linked (clients ?w) (channels ?w) (\<lambda>x. nick_of (threads cfg x))"
    using C by (simp add: consistent_def)
  have reg: "clients ?w n = Some s" using linkedD1 [OF L, of s n] t by simp
  have ne: "n \<noteq> []" using linkedD3 [OF L, of s] t by auto
  obtain w1 where b: "loop_body s r (Some n) ?w = (Break, Some n, w1)"
    and same: "clients w1 = clients ?w" "channels w1 = channels ?w"
  proof -
    from r consider "r = Empty \<or> r = Reset \<or> r = Data []"
      | d where "r = Data d" "strip d = ''/quit''" "s \<notin> broken ?w" by blast
    then show ?thesis
    proof cases
      case 1
      then have "loop_body s r (Some n) ?w = (Break, Some n, ?w)"
        by (auto simp: loop_body_def)
      then show ?thesis using that by blast
    next
      case 2
      then have "loop_body s r (Some n) ?w = (Break, Some n, sendall s quit_line ?w)"
        using loop_body_message [of d s "Some n" ?w]
        by (simp add: dispatch_def startswith_def)
      then show ?thesis using that [of "sendall s quit_line ?w"] by (simp add: sendall_def)
    qed
  qed
  have st: "step (Input s r) cfg =
      cfg\<lparr>shared := cleanup s (Some n) w1, threads := (threads cfg)(s := Closed)\<rparr>"
    using t b by (simp add: step_def)
  have "drop_old (Some n) w1 = remove_nickname n w1"
    using reg ne same by (auto simp: drop_old_def)
  then have cl: "clients (cleanup s (Some n) w1) = (clients ?w)(n := None)"
    and ch: "channels (cleanup s (Some n) w1) = (\<lambda>c. map_option (removeAll n) (channels ?w c))"
    using same by (simp_all add: cleanup_def Let_def remove_nickname_def)
  have "\<not> is_member n c (cleanup s (Some n) w1)" for c
    by (cases "channels ?w c") (simp_all add: is_member_def ch)
  with cl show ?thesis unfolding st by simp
qed

section \<open>The claims\<close>

text \<open>
  Claim C1, as the code has it. The test on line 81 is \<open>desired_nick in clients\<close>: it
  asks whether the name is a key of the dict, not who holds it. So for a line that
  strips to \<open>/nick\<close>, a space and an argument, with \<open>n\<close> the stripped argument
  (never empty): if \<open>n\<close> is registered, to any socket, the requester's own included, the
  only action is one \<open>sendall\<close> of the already-taken line to the requester, and the
  local nickname, \<open>clients\<close> and \<open>channels\<close> stay as they were; if \<open>n\<close> is not
  registered, the old nickname (if any) is dropped, \<open>n\<close> is registered to the requester
  and the nickname-set line is written. The already-taken line with unchanged dicts is
  the outcome exactly when \<open>n\<close> is registered.
\<close>

theorem nick_taken_iff_registered:
  assumes "strip d = ''/nick '' @ arg" and "n = strip arg"
  shows "(n \<in> dom (clients w) \<longrightarrow>
            command s (Data d) nickname w =
              (if s \<in> broken w then Raise else Continue, nickname,
               w\<lparr>sent := sent w @ [(s, ''Nickname already taken. Try another one.'' @ [NL])]\<rparr>))
       \<and> (n \<notin> dom (clients w) \<longrightarrow>
            command s (Data d) nickname w =
              (if s \<in> broken w then Raise else Continue, Some n,
               (drop_old nickname w)
                 \<lparr>clients := (clients (drop_old nickname w))(n \<mapsto> s),
                  sent := sent w @ [(s, ''Nickname set to '' @ [CHR 0x27] @ n @ [CHR 0x27] @ ''.'' @ [NL])]\<rparr>))
       \<and> ((sent (snd (snd (command s (Data d) nickname w)))
               = sent w @ [(s, ''Nickname already taken. Try another one.'' @ [NL])]
            \<and> clients (snd (snd (command s (Data d) nickname w))) = clients w
            \<and> channels (snd (snd (command s (Data d) nickname w))) = channels w)
           = (n \<in> dom (clients w)))"
proof (cases "n \<in> dom (clients w)")
  case True
  then show ?thesis
    using command_nick [OF assms, of s nickname w]
    by (simp add: reply_def sendall_def taken_line_def)
next
  case False
  then have none: "clients w n = None" by auto
  have "clients ((drop_old nickname w)
                 \<lparr>clients := (clients (drop_old nickname w))(n \<mapsto> s),
                  sent := x\<rparr>) \<noteq> clients w" for x
  proof
    assume "clients ((drop_old nickname w)
                 \<lparr>clients := (clients (drop_old nickname w))(n \<mapsto> s),
                  sent := x\<rparr>) = clients w"
    then have "((clients (drop_old nickname w))(n \<mapsto> s)) n = clients w n" by simp
    with none show False by simp
  qed
  with False show ?thesis
    using command_nick [OF assms, of s nickname w]
    by (simp add: reply_def sendall_def nick_set_line_def sent_drop_old)
qed

theorem nick_taken_iff_registered_witness:
  "command 2 (Data (''/nick alice'' @ [NL])) None
      \<lparr>clients = [''alice'' \<mapsto> 1], channels = Map.empty, sent = [], broken = {}\<rparr> =
     (Continue, None,
      \<lparr>clients = [''alice'' \<mapsto> 1], channels = Map.empty,
       sent = [(2, ''Nickname already taken. Try another one.'' @ [NL])], broken = {}\<rparr>)
   \<and> command 2 (Data (''/nick bob'' @ [NL])) None
      \<lparr>clients = [''alice'' \<mapsto> 1], channels = Map.empty, sent = [], broken = {}\<rparr> =
     (Continue, Some ''bob'',
      \<lparr>clients = [''alice'' \<mapsto> 1, ''bob'' \<mapsto> 2], channels = Map.empty,
       sent = [(2, ''Nickname set to '' @ [CHR 0x27] @ ''bob'' @ [CHR 0x27] @ ''.'' @ [NL])], broken = {}\<rparr>)"
  using nick_taken_iff_registered [of "''/nick alice'' @ [NL]" "''alice''" "''alice''"
          "\<lparr>clients = [''alice'' \<mapsto> 1], channels = Map.empty, sent = [], broken = {}\<rparr>" 2 None]
        nick_taken_iff_registered [of "''/nick bob'' @ [NL]" "''bob''" "''bob''"
          "\<lparr>clients = [''alice'' \<mapsto> 1], channels = Map.empty, sent = [], broken = {}\<rparr>" 2 None]
  by (simp add: strip_def py_isspace_def drop_old_def)

text \<open>
  Claim C1 as stated fails: the session on socket 1 holds \<open>alice\<close>, nobody else is
  registered, and its own \<open>/nick alice\<close> is answered with the already-taken line
  instead of succeeding.
\<close>

theorem own_nickname_is_refused:
  "command 1 (Data (''/nick alice'' @ [NL])) (Some ''alice'')
      \<lparr>clients = [''alice'' \<mapsto> 1], channels = Map.empty, sent = [], broken = {}\<rparr> =
     (Continue, Some ''alice'',
      \<lparr>clients = [''alice'' \<mapsto> 1], channels = Map.empty,
       sent = [(1, ''Nickname already taken. Try another one.'' @ [NL])], broken = {}\<rparr>)"
  using command_nick [of "''/nick alice'' @ [NL]" "''alice''" "''alice''" 1 "Some ''alice''"
          "\<lparr>clients = [''alice'' \<mapsto> 1], channels = Map.empty, sent = [], broken = {}\<rparr>"]
  by (simp add: strip_def py_isspace_def reply_def sendall_def taken_line_def)

text \<open>
  Claim C2. \<open>broadcast_channel_message\<close> changes nothing but the record of writes. For a
  channel that has an entry it calls \<open>sendall\<close> once for each member that is not the
  sender and is a key of \<open>clients\<close>, on that member's socket, with the line
  \<open>[Channel c] a: m\<close> and a newline; for a channel without an entry it does nothing.
  The sockets written to are exactly those of the members other than the sender; the
  sender's own socket is not among them whenever it is registered under the sender's
  nickname only (as it is in every state the server reaches, lemma
  \<open>consistent_one_name_per_socket\<close>).
\<close>

theorem broadcast_recipients:
  shows "let line = ''[Channel '' @ c @ ''] '' @ a @ '': '' @ m @ [NL];
             members = (case channels w c of None \<Rightarrow> [] | Some ms \<Rightarrow> ms);
             written = List.map_filter
               (\<lambda>n. if n \<noteq> a then map_option (\<lambda>h. (h, line)) (clients w n) else None) members
         in broadcast_channel_message a c m w = w\<lparr>sent := sent w @ written\<rparr>
          \<and> (channels w c = None \<longrightarrow> broadcast_channel_message a c m w = w)
          \<and> set written = {(h, line) | h n. n \<in> set members \<and> n \<noteq> a \<and> clients w n = Some h}
          \<and> (\<forall>h. clients w a = Some h \<and> (\<forall>n. clients w n = Some h \<longrightarrow> n = a)
                 \<longrightarrow> h \<notin> fst ` set written)"
proof -
  define line where "line = ''[Channel '' @ c @ ''] '' @ a @ '': '' @ m @ [NL]"
  define members where "members = (case channels w c of None \<Rightarrow> [] | Some ms \<Rightarrow> ms)"
  define written where "written = List.map_filter
               (\<lambda>n. if n \<noteq> a then map_option (\<lambda>h. (h, line)) (clients w n) else None) members"
  have l: "channel_line c a m = line"
    by (simp add: channel_line_def line_def)
  have 1: "broadcast_channel_message a c m w = w\<lparr>sent := sent w @ written\<rparr>"
    by (cases "channels w c")
       (simp_all add: broadcast_channel_message_def deliver_sent l written_def members_def map_filter_simps
          cong: if_cong)
  have 2: "channels w c = None \<longrightarrow> broadcast_channel_message a c m w = w"
    by (simp add: broadcast_channel_message_def)
  have 3: "set written = {(h, line) | h n. n \<in> set members \<and> n \<noteq> a \<and> clients w n = Some h}"
    unfolding written_def set_map_filter by (auto split: if_splits)
  have 4: "\<forall>h. clients w a = Some h \<and> (\<forall>n. clients w n = Some h \<longrightarrow> n = a)
                 \<longrightarrow> h \<notin> fst ` set written"
  proof (intro allI impI notI)
    fix h
    assume own: "clients w a = Some h \<and> (\<forall>n. clients w n = Some h \<longrightarrow> n = a)"
      and "h \<in> fst ` set written"
    then obtain l where "(h, l) \<in> set written" by force
    then obtain n where "n \<noteq> a" "clients w n = Some h" unfolding 3 by blast
    with own show False by blast
  qed
  have "broadcast_channel_message a c m w = w\<lparr>sent := sent w @ written\<rparr>
          \<and> (channels w c = None \<longrightarrow> broadcast_channel_message a c m w = w)
          \<and> set written = {(h, line) | h n. n \<in> set members \<and> n \<noteq> a \<and> clients w n = Some h}
          \<and> (\<forall>h. clients w a = Some h \<and> (\<forall>n. clients w n = Some h \<longrightarrow> n = a)
                 \<longrightarrow> h \<notin> fst ` set written)"
    by (intro conjI 1 2 3 4)
  then show ?thesis
    unfolding Let_def line_def members_def written_def .
qed

theorem broadcast_recipients_witness:
  "broadcast_channel_message ''alice'' ''lobby'' ''hi''
      \<lparr>clients = [''alice'' \<mapsto> 1, ''bob'' \<mapsto> 2, ''carol'' \<mapsto> 3],
       channels = [''lobby'' \<mapsto> [''alice'', ''bob'', ''carol'']], sent = [], broken = {}\<rparr>
     = \<lparr>clients = [''alice'' \<mapsto> 1, ''bob'' \<mapsto> 2, ''carol'' \<mapsto> 3],
        channels = [''lobby'' \<mapsto> [''alice'', ''bob'', ''carol'']],
        sent = [(2, ''[Channel lobby] alice: hi'' @ [NL]), (3, ''[Channel lobby] alice: hi'' @ [NL])],
        broken = {}\<rparr>
   \<and> 1 \<notin> fst ` set [(2 :: sock, ''[Channel lobby] alice: hi'' @ [NL]),
                        (3, ''[Channel lobby] alice: hi'' @ [NL])]
   \<and> broadcast_channel_message ''alice'' ''nowhere'' ''hi''
      \<lparr>clients = [''alice'' \<mapsto> 1, ''bob'' \<mapsto> 2, ''carol'' \<mapsto> 3],
       channels = [''lobby'' \<mapsto> [''alice'', ''bob'', ''carol'']], sent = [], broken = {}\<rparr>
     = \<lparr>clients = [''alice'' \<mapsto> 1, ''bob'' \<mapsto> 2, ''carol'' \<mapsto> 3],
        channels = [''lobby'' \<mapsto> [''alice'', ''bob'', ''carol'']], sent = [], broken = {}\<rparr>"
proof -
  let ?w = "\<lparr>clients = [''alice'' \<mapsto> 1, ''bob'' \<mapsto> 2, ''carol'' \<mapsto> (3 :: sock)],
            channels = [''lobby'' \<mapsto> [''alice'', ''bob'', ''carol'']], sent = [], broken = {}\<rparr>"
  note t1 = broadcast_recipients [of "''lobby''" "''alice''" "''hi''" ?w, unfolded Let_def]
  note t2 = broadcast_recipients [of "''nowhere''" "''alice''" "''hi''" ?w, unfolded Let_def]
  have own: "clients ?w ''alice'' = Some 1 \<and> (\<forall>n. clients ?w n = Some 1 \<longrightarrow> n = ''alice'')"
    by (simp split: if_splits)
  have a: "broadcast_channel_message ''alice'' ''lobby'' ''hi'' ?w
     = ?w\<lparr>sent := [(2, ''[Channel lobby] alice: hi'' @ [NL]), (3, ''[Channel lobby] alice: hi'' @ [NL])]\<rparr>"
    using t1 [THEN conjunct1] by (simp add: map_filter_simps)
  have "1 \<notin> fst ` set (List.map_filter
               (\<lambda>n. if n \<noteq> ''alice''
                    then map_option (\<lambda>h. (h, ''[Channel '' @ ''lobby'' @ ''] '' @ ''alice'' @ '': '' @ ''hi'' @ [NL]))
                           (clients ?w n)
                    else None)
               (case channels ?w ''lobby'' of None \<Rightarrow> [] | Some ms \<Rightarrow> ms))"
    using t1 own by blast
  then have b: "1 \<notin> fst ` set [(2 :: sock, ''[Channel lobby] alice: hi'' @ [NL]),
                        (3, ''[Channel lobby] alice: hi'' @ [NL])]"
    by (simp add: map_filter_simps)
  have c: "broadcast_channel_message ''alice'' ''nowhere'' ''hi'' ?w = ?w"
    using t2 [THEN conjunct1] by (simp add: map_filter_simps)
  from a b c show ?thesis by simp
qed

text \<open>
  Claim C3. For a session with the non-empty nickname \<open>n\<close> and a line that strips to
  \<open>/send\<close>, a channel name without a space, a space and a message: when \<open>n\<close> is a
  member of the channel in the state of the send, the command is the broadcast; when it
  is not (the channel has no entry, or \<open>n\<close> is not in its set), the only action is one
  \<open>sendall\<close> of the must-join line to the sender's own socket, so nothing is written to
  any other socket and the dicts stay as they were.
\<close>

theorem send_requires_membership:
  assumes "strip d = ''/send '' @ c @ SP # m" and "SP \<notin> set c" and "n \<noteq> []"
  shows "command s (Data d) (Some n) w =
     (if is_member n c w
      then (Continue, Some n, broadcast_channel_message n c m w)
      else (if s \<in> broken w then Raise else Continue, Some n,
            w\<lparr>sent := sent w @
               [(s, ''You must join channel '' @ [CHR 0x27] @ c @ [CHR 0x27]
                      @ '' before sending messages there.'' @ [NL])]\<rparr>))"
  using command_send [OF assms, of s w]
  by (simp add: command_def reply_def sendall_def must_join_line_def)

theorem send_requires_membership_witness:
  "command 2 (Data (''/send lobby hi all'' @ [NL])) (Some ''bob'')
      \<lparr>clients = [''alice'' \<mapsto> 1, ''bob'' \<mapsto> 2], channels = [''lobby'' \<mapsto> [''alice'']],
       sent = [], broken = {}\<rparr> =
     (Continue, Some ''bob'',
      \<lparr>clients = [''alice'' \<mapsto> 1, ''bob'' \<mapsto> 2], channels = [''lobby'' \<mapsto> [''alice'']],
       sent = [(2, ''You must join channel '' @ [CHR 0x27] @ ''lobby'' @ [CHR 0x27]
                      @ '' before sending messages there.'' @ [NL])], broken = {}\<rparr>)
   \<and> command 1 (Data (''/send lobby hi all'' @ [NL])) (Some ''alice'')
      \<lparr>clients = [''alice'' \<mapsto> 1, ''bob'' \<mapsto> 2], channels = [''lobby'' \<mapsto> [''alice'', ''bob'']],
       sent = [], broken = {}\<rparr> =
     (Continue, Some ''alice'',
      \<lparr>clients = [''alice'' \<mapsto> 1, ''bob'' \<mapsto> 2], channels = [''lobby'' \<mapsto> [''alice'', ''bob'']],
       sent = [(2, ''[Channel lobby] alice: hi all'' @ [NL])], broken = {}\<rparr>)"
  using send_requires_membership [of "''/send lobby hi all'' @ [NL]" "''lobby''" "''hi all''" "''bob''" 2
          "\<lparr>clients = [''alice'' \<mapsto> 1, ''bob'' \<mapsto> 2], channels = [''lobby'' \<mapsto> [''alice'']],
            sent = [], broken = {}\<rparr>"]
        send_requires_membership [of "''/send lobby hi all'' @ [NL]" "''lobby''" "''hi all''" "''alice''" 1
          "\<lparr>clients = [''alice'' \<mapsto> 1, ''bob'' \<mapsto> 2], channels = [''lobby'' \<mapsto> [''alice'', ''bob'']],
            sent = [], broken = {}\<rparr>"]
  by (simp add: strip_def py_isspace_def is_member_def broadcast_channel_message_def sendall_def
        channel_line_def)

text \<open>
  Claim C4 fails on the code. The cleanup of lines 159 to 165 stands after the loop with
  no \<open>try\<close>/\<open>finally\<close> around the loop, so it runs only when the loop ends by
  \<open>break\<close> (lemma \<open>cleanup_on_break\<close>). In the example \<open>alice\<close> on socket 1 sends
  bytes that are not UTF-8: \<open>data.decode()\<close> raises, the thread ends, and \<open>alice\<close> is
  still registered and still a member of \<open>lobby\<close>; a new connection on socket 3 that
  asks for \<open>alice\<close> is told the nickname is taken. The same holds when the connection
  of socket 1 has broken and \<open>alice\<close> sends \<open>/quit\<close>: the write of the closing line
  raises before the \<open>break\<close>.
\<close>

theorem cleanup_is_skipped_when_the_loop_raises:
  "step (Input 1 Garbled) lobby_cfg
     = lobby_cfg\<lparr>threads := (threads lobby_cfg)(1 := Crashed (Some ''alice''))\<rparr>
   \<and> clients (shared (step (Input 1 Garbled) lobby_cfg)) ''alice'' = Some 1
   \<and> is_member ''alice'' ''lobby'' (shared (step (Input 1 Garbled) lobby_cfg))
   \<and> sent (shared (run [Input 1 Garbled, Connect 3, Input 3 (Data (''/nick alice'' @ [NL]))] lobby_cfg))
     = sent (shared (run [Input 1 Garbled, Connect 3] lobby_cfg))
       @ [(3, ''Nickname already taken. Try another one.'' @ [NL])]
   \<and> threads (run [Sever 1, Input 1 (Data (''/quit'' @ [NL]))] lobby_cfg) 1 = Crashed (Some ''alice'')
   \<and> clients (shared (run [Sever 1, Input 1 (Data (''/quit'' @ [NL]))] lobby_cfg)) ''alice'' = Some 1
   \<and> is_member ''alice'' ''lobby'' (shared (run [Sever 1, Input 1 (Data (''/quit'' @ [NL]))] lobby_cfg))"
proof -
  define c1 where "c1 = step (Input 1 Garbled) lobby_cfg"
  define c2 where "c2 = step (Connect 3) c1"
  define c3 where "c3 = step (Input 3 (Data (''/nick alice'' @ [NL]))) c2"
  define q1 where "q1 = step (Sever 1) lobby_cfg"
  define q2 where "q2 = step (Input 1 (Data (''/quit'' @ [NL]))) q1"
  have t: "threads lobby_cfg 1 = Running (Some ''alice'')"
    by (simp add: lobby_cfg_facts)
  have c1: "c1 = lobby_cfg\<lparr>threads := (threads lobby_cfg)(1 := Crashed (Some ''alice''))\<rparr>"
    unfolding c1_def using t by (simp add: step_def loop_body_def)
  have a: "threads c1 3 = Absent" "3 \<notin> broken (shared c1)"
    by (simp_all add: c1 lobby_cfg_facts)
  have c2: "threads c2 3 = Running None" "clients (shared c2) ''alice'' = Some 1"
    unfolding c2_def using accept_fresh [OF a] by (simp_all add: c1 lobby_cfg_facts)
  have "loop_body 3 (Data (''/nick alice'' @ [NL])) None (shared c2)
      = reply 3 taken_line None (shared c2)"
    using loop_body_nick [OF strip_examples(1) strip_examples(5) [symmetric], of 3 None "shared c2"] c2(2)
    by (simp add: domIff)
  then have 4: "sent (shared c3) = sent (shared c2) @ [(3, taken_line)]"
    unfolding c3_def using c2(1) by (simp add: step_def reply_def sendall_def split: if_splits)
  have 23: "clients (shared c1) ''alice'' = Some 1" "is_member ''alice'' ''lobby'' (shared c1)"
    by (simp_all add: c1 lobby_cfg_facts is_member_def)
  have q1: "q1 = lobby_cfg\<lparr>shared := (shared lobby_cfg)\<lparr>broken := {1}\<rparr>\<rparr>"
    unfolding q1_def by (simp add: step_def lobby_cfg_facts)
  have "loop_body 1 (Data (''/quit'' @ [NL])) (Some ''alice'') (shared q1)
      = (Raise, Some ''alice'', sendall 1 quit_line (shared q1))"
    using loop_body_message [of "''/quit'' @ [NL]" 1 "Some ''alice''" "shared q1"]
    unfolding strip_quit dispatch_quit by (simp add: q1)
  then have q2: "q2 = q1\<lparr>shared := sendall 1 quit_line (shared q1),
                         threads := (threads q1)(1 := Crashed (Some ''alice''))\<rparr>"
    unfolding q2_def using t by (simp add: step_def q1)
  have 567: "threads q2 1 = Crashed (Some ''alice'')" "clients (shared q2) ''alice'' = Some 1"
    "is_member ''alice'' ''lobby'' (shared q2)"
    by (simp_all add: q2 q1 sendall_def lobby_cfg_facts is_member_def)
  show ?thesis
    unfolding run.simps c1_def [symmetric] c2_def [symmetric] c3_def [symmetric]
      q1_def [symmetric] q2_def [symmetric]
    using c1 23 4 567 by (simp add: taken_line_def)
qed

text \<open>
  Claim C5. A thread in its loop holds the nickname \<open>a\<close> (registered to its socket) and
  receives a line that strips to \<open>/nick\<close>, a space and an argument whose stripped form
  \<open>b\<close> is not registered. The whole rename is one step of the thread, lines 80 to 95
  under one \<open>with lock\<close>: in the state before it \<open>a\<close> is registered and \<open>b\<close> is not,
  in the state after it \<open>b\<close> is registered to the same socket, \<open>a\<close> is no key of
  \<open>clients\<close> and no member of any channel, every other entry is as before, and the
  nickname-set line has been written. No state lies between the two, and in every
  state of every run a socket has exactly its thread's current nickname registered
  (lemma \<open>registered_names_of_socket\<close>).
\<close>

theorem rename_is_one_step:
  assumes "threads cfg s = Running (Some a)" and "clients (shared cfg) a = Some s" and "a \<noteq> []"
    and "strip d = ''/nick '' @ arg" and "b = strip arg" and "b \<notin> dom (clients (shared cfg))"
  shows "step (Input s (Data d)) cfg =
     cfg\<lparr>shared := (shared cfg)
            \<lparr>clients := ((clients (shared cfg))(a := None))(b \<mapsto> s),
             channels := (\<lambda>c. map_option (removeAll a) (channels (shared cfg) c)),
             sent := sent (shared cfg) @
               [(s, ''Nickname set to '' @ [CHR 0x27] @ b @ [CHR 0x27] @ ''.'' @ [NL])]\<rparr>,
          threads := (threads cfg)
            (s := if s \<in> broken (shared cfg) then Crashed (Some b) else Running (Some b))\<rparr>
   \<and> a \<in> dom (clients (shared cfg)) \<and> b \<notin> dom (clients (shared cfg))
   \<and> a \<notin> dom (clients (shared (step (Input s (Data d)) cfg)))
   \<and> b \<in> dom (clients (shared (step (Input s (Data d)) cfg)))
   \<and> (\<forall>c members. channels (shared (step (Input s (Data d)) cfg)) c = Some members
          \<longrightarrow> a \<notin> set members)"
proof -
  let ?w = "shared cfg"
  have ab: "a \<noteq> b" using assms(2,6) by auto
  have ne: "b \<noteq> []"
    using strip_arg_nonempty [of d "''/nick''" arg] assms(4,5) by simp
  have drop: "drop_old (Some a) ?w = remove_nickname a ?w"
    using assms(2,3) by (auto simp: drop_old_def)
  have "loop_body s (Data d) (Some a) ?w = nick_command s (''/nick '' @ arg) (Some a) ?w"
    using loop_body_message [of d s "Some a" ?w] assms(4) sw_nick [of arg]
    by (simp add: dispatch_def)
  also have "\<dots> = reply s (nick_set_line b) (Some b)
        ((remove_nickname a ?w)\<lparr>clients := (clients (remove_nickname a ?w))(b \<mapsto> s)\<rparr>)"
    using nick_command_eq [OF assms(5) [symmetric] ne, of s "Some a" ?w] assms(6) drop by simp
  finally have body: "loop_body s (Data d) (Some a) ?w =
      (if s \<in> broken ?w then Raise else Continue, Some b,
       ?w\<lparr>clients := ((clients ?w)(a := None))(b \<mapsto> s),
          channels := (\<lambda>c. map_option (removeAll a) (channels ?w c)),
          sent := sent ?w @ [(s, ''Nickname set to '' @ [CHR 0x27] @ b @ [CHR 0x27] @ ''.'' @ [NL])]\<rparr>)"
    by (simp add: reply_def sendall_def remove_nickname_def nick_set_line_def)
  have st: "step (Input s (Data d)) cfg =
     cfg\<lparr>shared := ?w
            \<lparr>clients := ((clients ?w)(a := None))(b \<mapsto> s),
             channels := (\<lambda>c. map_option (removeAll a) (channels ?w c)),
             sent := sent ?w @
               [(s, ''Nickname set to '' @ [CHR 0x27] @ b @ [CHR 0x27] @ ''.'' @ [NL])]\<rparr>,
          threads := (threads cfg)
            (s := if s \<in> broken ?w then Crashed (Some b) else Running (Some b))\<rparr>"
    using assms(1) body by (simp add: step_def)
  show ?thesis
    unfolding st using assms(2,6) ab by auto
qed

theorem rename_is_one_step_witness:
  "clients (shared (step (Input 1 (Data (''/nick ally'' @ [NL]))) lobby_cfg))
     = [''bob'' \<mapsto> 2, ''ally'' \<mapsto> 1]
   \<and> channels (shared (step (Input 1 (Data (''/nick ally'' @ [NL]))) lobby_cfg))
     = [''lobby'' \<mapsto> []]
   \<and> threads (step (Input 1 (Data (''/nick ally'' @ [NL]))) lobby_cfg) 1 = Running (Some ''ally'')"
proof -
  have s: "strip (''/nick ally'' @ [NL]) = ''/nick '' @ ''ally''" "''ally'' = strip ''ally''"
    by (simp_all add: strip_def py_isspace_def)
  have "threads lobby_cfg 1 = Running (Some ''alice'')"
    and "clients (shared lobby_cfg) ''alice'' = Some 1"
    and "''alice'' \<noteq> []"
    and "''ally'' \<notin> dom (clients (shared lobby_cfg))"
    by (simp_all add: lobby_cfg_facts)
  from rename_is_one_step [OF this(1,2,3) s this(4), THEN conjunct1]
  show ?thesis
    by (simp add: lobby_cfg_facts fun_eq_iff)
qed

text \<open>
  Claim C6. A session on socket \<open>s\<close> holds the non-empty nickname \<open>n\<close> (it is
  registered to \<open>s\<close>) and sends a line that strips to \<open>/pm\<close>, a target without a
  space, a space and a message. When the target is not a key of \<open>clients\<close>, the only
  action is one \<open>sendall\<close> of the not-found line to the sender's socket; when it is, the
  only action is one \<open>sendall\<close> of the private line to the target's socket. Either
  way the nickname and the dicts stay as they were.
\<close>

theorem pm_target_lookup:
  assumes "strip d = ''/pm '' @ t @ SP # m" and "SP \<notin> set t"
    and "n \<noteq> []" and "clients w n = Some s"
  shows "command s (Data d) (Some n) w =
     (case clients w t of
        None \<Rightarrow>
          (if s \<in> broken w then Raise else Continue, Some n,
           w\<lparr>sent := sent w @
              [(s, ''User '' @ [CHR 0x27] @ t @ [CHR 0x27] @ '' not found.'' @ [NL])]\<rparr>)
      | Some h \<Rightarrow>
          (Continue, Some n,
           w\<lparr>sent := sent w @ [(h, ''[Private] '' @ n @ '': '' @ m @ [NL])]\<rparr>))"
  using loop_body_pm [OF assms(1,2,3), of s w] assms(4)
  by (simp add: command_def private_message_def sendall_def not_found_line_def private_line_def
        split: option.splits)

theorem pm_target_lookup_witness:
  "command 1 (Data (''/pm ghost hello'' @ [NL])) (Some ''alice'')
      \<lparr>clients = [''alice'' \<mapsto> 1, ''bob'' \<mapsto> 2], channels = Map.empty, sent = [], broken = {}\<rparr> =
     (Continue, Some ''alice'',
      \<lparr>clients = [''alice'' \<mapsto> 1, ''bob'' \<mapsto> 2], channels = Map.empty,
       sent = [(1, ''User '' @ [CHR 0x27] @ ''ghost'' @ [CHR 0x27] @ '' not found.'' @ [NL])],
       broken = {}\<rparr>)
   \<and> command 1 (Data (''/pm bob hello there'' @ [NL])) (Some ''alice'')
      \<lparr>clients = [''alice'' \<mapsto> 1, ''bob'' \<mapsto> 2], channels = Map.empty, sent = [], broken = {}\<rparr> =
     (Continue, Some ''alice'',
      \<lparr>clients = [''alice'' \<mapsto> 1, ''bob'' \<mapsto> 2], channels = Map.empty,
       sent = [(2, ''[Private] alice: hello there'' @ [NL])], broken = {}\<rparr>)"
  using pm_target_lookup [of "''/pm ghost hello'' @ [NL]" "''ghost''" "''hello''" "''alice''"
          "\<lparr>clients = [''alice'' \<mapsto> 1, ''bob'' \<mapsto> 2], channels = Map.empty, sent = [], broken = {}\<rparr>" 1]
        pm_target_lookup [of "''/pm bob hello there'' @ [NL]" "''bob''" "''hello there''" "''alice''"
          "\<lparr>clients = [''alice'' \<mapsto> 1, ''bob'' \<mapsto> 2], channels = Map.empty, sent = [], broken = {}\<rparr>" 1]
  by (simp add: strip_def py_isspace_def)

text \<open>
  Claim C7, as the code has it. \<open>/send\<close> takes the one lock twice: for the membership
  check (lines 127 to 130) and, after releasing it, inside
  \<open>broadcast_channel_message\<close> (line 12). The check changes nothing and leaves the
  thread before the call. Any steps \<open>es\<close> of other threads may run then; they leave the
  thread where it is and the sender a member of the channel (only a thread's own steps
  remove its nickname), and the call that follows is the broadcast in the state those
  steps have produced.
\<close>

theorem send_is_two_critical_sections:
  assumes "consistent cfg" and "threads cfg s = Running (Some n)" and "n \<noteq> []"
    and "strip d = ''/send '' @ c @ SP # m" and "SP \<notin> set c"
    and "is_member n c (shared cfg)"
    and "\<forall>e \<in> set es. sock_of e \<noteq> s"
  shows "step (Input s (Data d)) cfg = cfg\<lparr>threads := (threads cfg)(s := Pending n c m)\<rparr>
   \<and> threads (run es (step (Input s (Data d)) cfg)) s = Pending n c m
   \<and> is_member n c (shared (run es (step (Input s (Data d)) cfg)))
   \<and> step (Resume s) (run es (step (Input s (Data d)) cfg)) =
       (run es (step (Input s (Data d)) cfg))
         \<lparr>shared := broadcast_channel_message n c m (shared (run es (step (Input s (Data d)) cfg))),
          threads := (threads (run es (step (Input s (Data d)) cfg)))(s := Running (Some n))\<rparr>"
proof -
  let ?c1 = "step (Input s (Data d)) cfg"
  have "loop_body s (Data d) (Some n) (shared cfg) = (Call_broadcast n c m, Some n, shared cfg)"
    using command_send [OF assms(4,5,3), of s "shared cfg"] assms(6) by simp
  with assms(2) have c1: "?c1 = cfg\<lparr>threads := (threads cfg)(s := Pending n c m)\<rparr>"
    by (simp add: step_def)
  have C1: "consistent ?c1" by (rule step_consistent [OF assms(1)])
  have nk: "nick_of (threads ?c1 s) = Some n" by (simp add: c1)
  have m1: "is_member n c (shared ?c1)" using assms(6) by (simp add: c1)
  from run_keeps_membership [OF C1 nk assms(7) m1]
  have r: "threads (run es ?c1) s = Pending n c m" "is_member n c (shared (run es ?c1))"
    by (simp_all add: c1)
  from r(1) have "step (Resume s) (run es ?c1) =
       (run es ?c1)
         \<lparr>shared := broadcast_channel_message n c m (shared (run es ?c1)),
          threads := (threads (run es ?c1))(s := Running (Some n))\<rparr>"
    by (simp add: step_def)
  with c1 r show ?thesis by simp
qed

theorem send_is_two_critical_sections_witness:
  "threads (run [Input 2 (Data (''/join lobby'' @ [NL]))]
              (step (Input 1 (Data (''/send lobby hi'' @ [NL]))) lobby_cfg)) 1
     = Pending ''alice'' ''lobby'' ''hi''
   \<and> is_member ''alice'' ''lobby''
        (shared (run [Input 2 (Data (''/join lobby'' @ [NL]))]
                   (step (Input 1 (Data (''/send lobby hi'' @ [NL]))) lobby_cfg)))
   \<and> shared (step (Resume 1)
        (run [Input 2 (Data (''/join lobby'' @ [NL]))]
           (step (Input 1 (Data (''/send lobby hi'' @ [NL]))) lobby_cfg)))
     = broadcast_channel_message ''alice'' ''lobby'' ''hi''
        (shared (run [Input 2 (Data (''/join lobby'' @ [NL]))]
                   (step (Input 1 (Data (''/send lobby hi'' @ [NL]))) lobby_cfg)))"
proof -
  have C: "consistent lobby_cfg"
    unfolding lobby_cfg_def by (rule run_commands_consistent [OF initial_consistent])
  have t: "threads lobby_cfg 1 = Running (Some ''alice'')"
    and n: "''alice'' \<noteq> []"
    and c: "SP \<notin> set ''lobby''"
    and m: "is_member ''alice'' ''lobby'' (shared lobby_cfg)"
    and es: "\<forall>e \<in> set [Input 2 (Data (''/join lobby'' @ [NL]))]. sock_of e \<noteq> 1"
    by (simp_all add: lobby_cfg_facts is_member_def)
  note T = send_is_two_critical_sections [OF C t n strip_send c m es]
  have sh: "shared (X\<lparr>shared := B, threads := T\<rparr>) = B" for X :: config and B T
    by simp
  from T have 2: "threads (run [Input 2 (Data (''/join lobby'' @ [NL]))]
              (step (Input 1 (Data (''/send lobby hi'' @ [NL]))) lobby_cfg)) 1
     = Pending ''alice'' ''lobby'' ''hi''" by blast
  from T have 3: "is_member ''alice'' ''lobby''
        (shared (run [Input 2 (Data (''/join lobby'' @ [NL]))]
                   (step (Input 1 (Data (''/send lobby hi'' @ [NL]))) lobby_cfg)))" by blast
  from T have 4: "step (Resume 1)
        (run [Input 2 (Data (''/join lobby'' @ [NL]))]
           (step (Input 1 (Data (''/send lobby hi'' @ [NL]))) lobby_cfg))
     = (run [Input 2 (Data (''/join lobby'' @ [NL]))]
           (step (Input 1 (Data (''/send lobby hi'' @ [NL]))) lobby_cfg))
         \<lparr>shared := broadcast_channel_message ''alice'' ''lobby'' ''hi''
            (shared (run [Input 2 (Data (''/join lobby'' @ [NL]))]
                   (step (Input 1 (Data (''/send lobby hi'' @ [NL]))) lobby_cfg))),
          threads := (threads (run [Input 2 (Data (''/join lobby'' @ [NL]))]
           (step (Input 1 (Data (''/send lobby hi'' @ [NL]))) lobby_cfg)))(1 := Running (Some ''alice''))\<rparr>"
    by blast
  have 5: "shared (step (Resume 1)
        (run [Input 2 (Data (''/join lobby'' @ [NL]))]
           (step (Input 1 (Data (''/send lobby hi'' @ [NL]))) lobby_cfg)))
     = broadcast_channel_message ''alice'' ''lobby'' ''hi''
        (shared (run [Input 2 (Data (''/join lobby'' @ [NL]))]
                   (step (Input 1 (Data (''/send lobby hi'' @ [NL]))) lobby_cfg)))"
    unfolding 4 by (rule sh)
  from 2 3 5 show ?thesis by (intro conjI)
qed

text \<open>
  Claim C7 as stated fails: \<open>alice\<close> passes the membership check of
  \<open>/send lobby hi\<close> while \<open>bob\<close> is not a member of \<open>lobby\<close>; \<open>bob\<close>'s \<open>/join lobby\<close>
  runs next and adds him; the broadcast that follows writes the message to \<open>bob\<close>'s
  socket.
\<close>

theorem join_lands_between_check_and_broadcast:
  "threads (step (Input 1 (Data (''/send lobby hi'' @ [NL]))) lobby_cfg) 1
     = Pending ''alice'' ''lobby'' ''hi''
   \<and> \<not> is_member ''bob'' ''lobby'' (shared (step (Input 1 (Data (''/send lobby hi'' @ [NL]))) lobby_cfg))
   \<and> is_member ''bob'' ''lobby''
       (shared (run [Input 1 (Data (''/send lobby hi'' @ [NL])), Input 2 (Data (''/join lobby'' @ [NL]))]
                  lobby_cfg))
   \<and> sent (shared (run [Input 1 (Data (''/send lobby hi'' @ [NL])), Input 2 (Data (''/join lobby'' @ [NL])),
                         Resume 1] lobby_cfg))
     = sent (shared (run [Input 1 (Data (''/send lobby hi'' @ [NL])), Input 2 (Data (''/join lobby'' @ [NL]))]
                       lobby_cfg))
       @ [(2, ''[Channel lobby] alice: hi'' @ [NL])]"
proof -
  define c1 where "c1 = step (Input 1 (Data (''/send lobby hi'' @ [NL]))) lobby_cfg"
  define c2 where "c2 = step (Input 2 (Data (''/join lobby'' @ [NL]))) c1"
  define c3 where "c3 = step (Resume 1) c2"
  have c1: "c1 = lobby_cfg\<lparr>threads := (threads lobby_cfg)(1 := Pending ''alice'' ''lobby'' ''hi'')\<rparr>"
    unfolding c1_def by (rule lobby_check)
  have c2: "c2 = lobby_cfg
     \<lparr>shared := (shared lobby_cfg)
        \<lparr>channels := [''lobby'' \<mapsto> [''alice'', ''bob'']],
         sent := sent (shared lobby_cfg) @ [(2, joined_line ''lobby'')]\<rparr>,
      threads := (threads lobby_cfg)(1 := Pending ''alice'' ''lobby'' ''hi'')\<rparr>"
    unfolding c2_def c1 by (rule lobby_join)
  have p: "threads c2 1 = Pending ''alice'' ''lobby'' ''hi''"
    by (simp add: c2)
  have c3: "shared c3 = broadcast_channel_message ''alice'' ''lobby'' ''hi'' (shared c2)"
    unfolding c3_def using p by (simp add: step_def)
  have "sent (shared c3) = sent (shared c2) @ [(2, ''[Channel lobby] alice: hi'' @ [NL])]"
    unfolding c3
    by (simp add: c2 broadcast_channel_message_def lobby_cfg_facts sendall_def channel_line_def)
  moreover have "threads c1 1 = Pending ''alice'' ''lobby'' ''hi''"
    by (simp add: c1)
  moreover have "\<not> is_member ''bob'' ''lobby'' (shared c1)"
    by (simp add: c1 is_member_def lobby_cfg_facts)
  moreover have "is_member ''bob'' ''lobby'' (shared c2)"
    by (simp add: c2 is_member_def)
  ultimately show ?thesis
    unfolding run.simps c1_def [symmetric] c2_def [symmetric] c3_def [symmetric]
    by simp
qed

text \<open>
  Claim C8. For a session with the non-empty nickname \<open>n\<close> and a line that strips to
  \<open>/join\<close>, a space and an argument, with \<open>c\<close> the stripped argument: after the
  command, channel \<open>c\<close> holds what it held before (nothing, when it had no entry)
  together with \<open>n\<close>, and \<open>clients\<close> is as before; the same command once more
  leaves \<open>clients\<close>, \<open>channels\<close> and the nickname exactly as the first left them.
\<close>

theorem join_creates_adds_and_is_idempotent:
  assumes "strip d = ''/join '' @ arg" and "c = strip arg" and "n \<noteq> []"
  shows "let once = command s (Data d) (Some n) w;
             twice = command s (Data d) (fst (snd once)) (snd (snd once))
         in channels (snd (snd once)) =
              (channels w)(c \<mapsto> set_add n (case channels w c of None \<Rightarrow> [] | Some ms \<Rightarrow> ms))
          \<and> set (set_add n (case channels w c of None \<Rightarrow> [] | Some ms \<Rightarrow> ms))
               = insert n (case channels w c of None \<Rightarrow> {} | Some ms \<Rightarrow> set ms)
          \<and> clients (snd (snd once)) = clients w
          \<and> fst (snd once) = Some n
          \<and> channels (snd (snd twice)) = channels (snd (snd once))
          \<and> clients (snd (snd twice)) = clients (snd (snd once))
          \<and> fst (snd twice) = fst (snd once)"
proof -
  define w1 where "w1 = snd (snd (command s (Data d) (Some n) w))"
  define w2 where "w2 = snd (snd (command s (Data d) (Some n) w1))"
  have 1: "command s (Data d) (Some n) w =
     reply s (joined_line c) (Some n)
       (w\<lparr>channels := (channels w)
            (c \<mapsto> set_add n (case channels w c of None \<Rightarrow> [] | Some ms \<Rightarrow> ms))\<rparr>)"
    by (rule command_join [OF assms])
  then have nn: "fst (snd (command s (Data d) (Some n) w)) = Some n"
    by (simp add: reply_def)
  have ch1: "channels w1 = (channels w)(c \<mapsto> set_add n (case channels w c of None \<Rightarrow> [] | Some ms \<Rightarrow> ms))"
    and cl1: "clients w1 = clients w"
    using 1 by (simp_all add: w1_def reply_def sendall_def)
  have 2: "command s (Data d) (Some n) w1 =
     reply s (joined_line c) (Some n)
       (w1\<lparr>channels := (channels w1)
            (c \<mapsto> set_add n (case channels w1 c of None \<Rightarrow> [] | Some ms \<Rightarrow> ms))\<rparr>)"
    by (rule command_join [OF assms])
  then have ch2: "channels w2 = (channels w1)
            (c \<mapsto> set_add n (case channels w1 c of None \<Rightarrow> [] | Some ms \<Rightarrow> ms))"
    and cl2: "clients w2 = clients w1"
    and nn2: "fst (snd (command s (Data d) (Some n) w1)) = Some n"
    by (simp_all add: w2_def reply_def sendall_def)
  have same: "channels w2 = channels w1"
    unfolding ch2 by (simp add: ch1 set_add_twice)
  have sets: "set (set_add n (case channels w c of None \<Rightarrow> [] | Some ms \<Rightarrow> ms))
            = insert n (case channels w c of None \<Rightarrow> {} | Some ms \<Rightarrow> set ms)"
    by (cases "channels w c") (simp_all add: set_set_add)
  show ?thesis
    unfolding Let_def nn w1_def [symmetric]
    unfolding w2_def [symmetric]
    using ch1 cl1 cl2 same sets nn2 by simp
qed

theorem join_creates_adds_and_is_idempotent_witness:
  "command 1 (Data (''/join lobby'' @ [NL])) (Some ''alice'')
      \<lparr>clients = [''alice'' \<mapsto> 1], channels = Map.empty, sent = [], broken = {}\<rparr>
     = (Continue, Some ''alice'',
        \<lparr>clients = [''alice'' \<mapsto> 1], channels = [''lobby'' \<mapsto> [''alice'']],
         sent = [(1, ''You have joined channel '' @ [CHR 0x27] @ ''lobby'' @ [CHR 0x27] @ ''.'' @ [NL])],
         broken = {}\<rparr>)
   \<and> channels (snd (snd (command 1 (Data (''/join lobby'' @ [NL])) (Some ''alice'')
        \<lparr>clients = [''alice'' \<mapsto> 1], channels = [''lobby'' \<mapsto> [''alice'']],
         sent = [(1, ''You have joined channel '' @ [CHR 0x27] @ ''lobby'' @ [CHR 0x27] @ ''.'' @ [NL])],
         broken = {}\<rparr>)))
     = [''lobby'' \<mapsto> [''alice'']]"
proof -
  have s: "strip (''/join lobby'' @ [NL]) = ''/join '' @ ''lobby''" "''lobby'' = strip ''lobby''"
    by (simp_all add: strip_def py_isspace_def)
  have n: "''alice'' \<noteq> []" by simp
  have once: "command 1 (Data (''/join lobby'' @ [NL])) (Some ''alice'')
      \<lparr>clients = [''alice'' \<mapsto> 1], channels = Map.empty, sent = [], broken = {}\<rparr>
     = (Continue, Some ''alice'',
        \<lparr>clients = [''alice'' \<mapsto> 1], channels = [''lobby'' \<mapsto> [''alice'']],
         sent = [(1, ''You have joined channel '' @ [CHR 0x27] @ ''lobby'' @ [CHR 0x27] @ ''.'' @ [NL])],
         broken = {}\<rparr>)"
    using command_join [OF s n, of 1
        "\<lparr>clients = [''alice'' \<mapsto> 1], channels = Map.empty, sent = [], broken = {}\<rparr>"]
    by (simp add: reply_def sendall_def joined_line_def set_add_def)
  from join_creates_adds_and_is_idempotent [OF s n, of 1
        "\<lparr>clients = [''alice'' \<mapsto> 1], channels = Map.empty, sent = [], broken = {}\<rparr>"]
  show ?thesis
    unfolding Let_def once by (simp add: set_add_def)
qed

text \<open>
  Claim C9. Start from the empty server and run any list of connections and commands,
  each command as a whole before the next: in the state reached, every nickname in the
  member set of any channel is a key of \<open>clients\<close>.
\<close>

theorem channel_members_are_registered:
  assumes "channels (shared (run_commands acts initial)) c = Some members" and "n \<in> set members"
  shows "n \<in> dom (clients (shared (run_commands acts initial)))"
proof -
  have "consistent (run_commands acts initial)"
    by (rule run_commands_consistent [OF initial_consistent])
  then have "linked (clients (shared (run_commands acts initial)))
     (channels (shared (run_commands acts initial)))
     (\<lambda>s. nick_of (threads (run_commands acts initial) s))"
    by (simp add: consistent_def)
  from linkedD4 [OF this assms] show ?thesis .
qed

theorem channel_members_are_registered_witness:
  "channels (shared lobby_cfg) ''lobby'' = Some [''alice'']
   \<and> ''alice'' \<in> set [''alice'']
   \<and> ''alice'' \<in> dom (clients (shared lobby_cfg))"
proof -
  have ch: "channels (shared lobby_cfg) ''lobby'' = Some [''alice'']"
    by (simp add: lobby_cfg_facts)
  have m: "''alice'' \<in> set [''alice'']" by simp
  from channel_members_are_registered [OF ch [unfolded lobby_cfg_def] m, folded lobby_cfg_def] ch m
  show ?thesis by simp
qed

text \<open>
  Claim C10. The line is what the parser sees, the received text after \<open>strip()\<close>
  (line 68). When it is exactly one of the bare words \<open>/nick\<close>, \<open>/join\<close>,
  \<open>/send\<close>, \<open>/pm\<close>, or is \<open>/quit\<close> followed by more text, the server's only
  action is one \<open>sendall\<close> of the unknown-command line to the session's own socket:
  no usage line, no empty-argument line, no disconnect. The loop continues (unless that
  write itself raises), and the nickname and the dicts stay as they were.
\<close>

theorem bare_command_word_is_unknown:
  assumes "strip d = ''/nick'' \<or> strip d = ''/join'' \<or> strip d = ''/send'' \<or> strip d = ''/pm''
           \<or> (strip d = ''/quit'' @ t \<and> t \<noteq> [])"
  shows "command s (Data d) nickname w =
     (if s \<in> broken w then Raise else Continue, nickname,
      w\<lparr>sent := sent w @ [(s, ''Unknown command. Try /nick, /join, /send, /pm, or /quit.'' @ [NL])]\<rparr>)"
proof -
  from assms have ne: "strip d \<noteq> []" by auto
  have "loop_body s (Data d) nickname w = reply s unknown_line nickname w"
    using loop_body_message [OF ne] dispatch_unknown [OF assms] by simp
  then have "command s (Data d) nickname w = reply s unknown_line nickname w"
    by (rule command_reply)
  then show ?thesis
    by (simp add: reply_def sendall_def unknown_line_def)
qed

theorem bare_command_word_is_unknown_witness:
  "command 1 (Data (''/join'' @ [NL])) None \<lparr>clients = Map.empty, channels = Map.empty, sent = [], broken = {}\<rparr> =
     (Continue, None,
      \<lparr>clients = Map.empty, channels = Map.empty,
       sent = [(1, ''Unknown command. Try /nick, /join, /send, /pm, or /quit.'' @ [NL])], broken = {}\<rparr>)
   \<and> command 2 (Data ''/quit now'') (Some ''bob'') \<lparr>clients = Map.empty, channels = Map.empty, sent = [], broken = {}\<rparr> =
     (Continue, Some ''bob'',
      \<lparr>clients = Map.empty, channels = Map.empty,
       sent = [(2, ''Unknown command. Try /nick, /join, /send, /pm, or /quit.'' @ [NL])], broken = {}\<rparr>)"
  using bare_command_word_is_unknown [of "''/join'' @ [NL]" "[]" 1 None
          "\<lparr>clients = Map.empty, channels = Map.empty, sent = [], broken = {}\<rparr>"]
        bare_command_word_is_unknown [of "''/quit now''" "'' now''" 2 "Some ''bob''"
          "\<lparr>clients = Map.empty, channels = Map.empty, sent = [], broken = {}\<rparr>"]
  by (simp add: strip_def py_isspace_def)

end
